theory Spec2Isabelle
  imports
    Complex_Main
    "HOL-Library.Multiset"
    "HOL-Library.AList"
    "HOL-Library.List_Lexorder"
    "HOL-Library.Product_Lexorder"
begin

unbundle bit_operations_syntax

section \<open>Python strings\<close>

text \<open>
  A Python \<open>str\<close> is a sequence of Unicode code points; \<open>len\<close> and slicing count code
  points. A string is modelled as the list of its code points, a \<open>bytes\<close> value as the
  list of its bytes, each a number below 256. Literals of the source are ASCII and are
  written with \<open>py\<close>.
\<close>

type_synonym pystr = "nat list"
type_synonym pybytes = "nat list"

definition py :: "string \<Rightarrow> pystr" where
  "py s = map of_char s"

section \<open>Splitting long text (\<open>AliyunCensor._split_text\<close>)\<close>

text \<open>
  The loop \<open>for i in range(0, len(content), 600): chunks.append(content[i:i + 600])\<close>,
  started at index \<open>i\<close>. A Python slice is clamped to the string, as \<open>take\<close> and
  \<open>drop\<close> are.
\<close>

function split_from :: "nat \<Rightarrow> pystr \<Rightarrow> pystr list" where
  "split_from i content =
     (if i < length content
      then take 600 (drop i content) # split_from (i + 600) content
      else [])"
  by pat_completeness auto
termination
  by (relation "measure (\<lambda>(i, content). length content - i)") auto

declare split_from.simps [simp del]

definition split_text :: "pystr \<Rightarrow> pystr list" where
  "split_text content = (if content = [] then [] else split_from 0 content)"

section \<open>Exceptions\<close>

text \<open>
  The exceptions that the modelled code can meet. \<open>ClientError\<close> is \<open>aiohttp.ClientError\<close>
  (with its subclasses); \<open>OtherError\<close> stands for any further subclass of \<open>Exception\<close>
  that the network layer or the JSON decoder raises.
\<close>

datatype exn = ClientError | UnicodeEncodeError | TypeError | AttributeError | KeyError | OtherError

section \<open>Library functions on strings\<close>

text \<open>
  \<open>str.encode("utf-8")\<close> with the default strict error handling: a surrogate code point
  raises. Python has no code point above \<open>0x10FFFF\<close>; a larger number is not a character
  and is given no encoding.
\<close>

definition utf8_char :: "nat \<Rightarrow> exn + pybytes" where
  "utf8_char c =
     (if c < 0x80 then Inr [c]
      else if c < 0x800 then Inr [0xC0 + c div 64, 0x80 + c mod 64]
      else if 0xD800 \<le> c \<and> c < 0xE000 then Inl UnicodeEncodeError
      else if c < 0x10000 then Inr [0xE0 + c div 4096, 0x80 + c div 64 mod 64, 0x80 + c mod 64]
      else if c < 0x110000
        then Inr [0xF0 + c div 262144, 0x80 + c div 4096 mod 64, 0x80 + c div 64 mod 64,
                  0x80 + c mod 64]
      else Inl UnicodeEncodeError)"

fun utf8_encode :: "pystr \<Rightarrow> exn + pybytes" where
  "utf8_encode [] = Inr []"
| "utf8_encode (c # cs) =
     (case utf8_char c of
        Inl e \<Rightarrow> Inl e
      | Inr b \<Rightarrow> (case utf8_encode cs of Inl e \<Rightarrow> Inl e | Inr bs \<Rightarrow> Inr (b @ bs)))"

text \<open>\<open>bytes.decode("utf-8")\<close> on ASCII bytes, the only bytes it meets here (Base64 output).\<close>

definition decode_ascii :: "pybytes \<Rightarrow> pystr" where
  "decode_ascii bs = bs"

text \<open>
  \<open>str.replace(old, new)\<close>: the occurrences of \<open>old\<close> are replaced from left to right,
  without overlap.
\<close>

function replace :: "pystr \<Rightarrow> pystr \<Rightarrow> pystr \<Rightarrow> pystr" where
  "replace old new [] = (if old = [] then new else [])"
| "replace old new (c # cs) =
     (if old = [] then new @ c # replace old new cs
      else if take (length old) (c # cs) = old
        then new @ replace old new (drop (length old) (c # cs))
      else c # replace old new cs)"
  by pat_completeness auto
termination
  by (relation "measure (\<lambda>(old, new, s). length s)") auto

text \<open>\<open>sep.join(parts)\<close>.\<close>

fun join :: "pystr \<Rightarrow> pystr list \<Rightarrow> pystr" where
  "join sep [] = []"
| "join sep [x] = x"
| "join sep (x # y # ys) = x @ sep @ join sep (y # ys)"

text \<open>
  \<open>urllib.parse.quote_plus(s)\<close> with its default arguments: the string is encoded as
  UTF-8; the bytes of the letters, the digits and \<open>_.-~\<close> stand for themselves, the space
  becomes \<open>+\<close>, and every other byte becomes \<open>%XX\<close> with upper-case hexadecimal digits.
\<close>

definition always_safe :: "nat \<Rightarrow> bool" where
  "always_safe b \<longleftrightarrow>
     (65 \<le> b \<and> b \<le> 90) \<or> (97 \<le> b \<and> b \<le> 122) \<or> (48 \<le> b \<and> b \<le> 57) \<or>
     b = 95 \<or> b = 46 \<or> b = 45 \<or> b = 126"

definition hex_upper :: "nat \<Rightarrow> nat" where
  "hex_upper d = (if d < 10 then 48 + d else 55 + d)"

definition hex_lower :: "nat \<Rightarrow> nat" where
  "hex_lower d = (if d < 10 then 48 + d else 87 + d)"

definition percent :: "nat \<Rightarrow> pystr" where
  "percent b = [37, hex_upper (b div 16), hex_upper (b mod 16)]"

definition quote_byte :: "nat \<Rightarrow> pystr" where
  "quote_byte b = (if always_safe b then [b] else if b = 32 then [43] else percent b)"

definition quote_plus :: "pystr \<Rightarrow> exn + pystr" where
  "quote_plus s =
     (case utf8_encode s of Inl e \<Rightarrow> Inl e | Inr bs \<Rightarrow> Inr (concat (map quote_byte bs)))"

text \<open>
  \<open>json.dumps({"content": content})\<close> with its default arguments (\<open>ensure_ascii\<close>): the
  quote, the backslash and the control characters are escaped, every character outside
  \<open>' '..'~'\<close> becomes \<open>\uXXXX\<close> (a surrogate pair above \<open>0xFFFF\<close>), with lower-case
  hexadecimal digits.
\<close>

definition json_u :: "nat \<Rightarrow> pystr" where
  "json_u n =
     [92, 117, hex_lower (n div 4096 mod 16), hex_lower (n div 256 mod 16),
      hex_lower (n div 16 mod 16), hex_lower (n mod 16)]"

definition json_escape_char :: "nat \<Rightarrow> pystr" where
  "json_escape_char c =
     (if c = 34 then [92, 34]
      else if c = 92 then [92, 92]
      else if c = 10 then [92, 110]
      else if c = 13 then [92, 114]
      else if c = 9 then [92, 116]
      else if c = 8 then [92, 98]
      else if c = 12 then [92, 102]
      else if 32 \<le> c \<and> c \<le> 126 then [c]
      else if c < 0x10000 then json_u c
      else json_u (0xD800 + (c - 0x10000) div 1024 mod 1024) @
           json_u (0xDC00 + (c - 0x10000) mod 1024))"

definition json_dumps_content :: "pystr \<Rightarrow> pystr" where
  "json_dumps_content content =
     [123, 34] @ py ''content'' @ [34, 58, 32, 34] @ concat (map json_escape_char content) @
     [34, 125]"

section \<open>SHA-1, HMAC and Base64 (\<open>hashlib\<close>, \<open>hmac\<close>, \<open>base64\<close>)\<close>

text \<open>32-bit words are numbers below \<open>2 ^ 32\<close>; the wrap-around is written out.\<close>

definition add32 :: "nat \<Rightarrow> nat \<Rightarrow> nat" where
  "add32 x y = (x + y) mod 4294967296"

definition rotl32 :: "nat \<Rightarrow> nat \<Rightarrow> nat" where
  "rotl32 n x = (push_bit n x mod 4294967296) OR drop_bit (32 - n) x"

definition not32 :: "nat \<Rightarrow> nat" where
  "not32 x = x XOR 4294967295"

fun be_words :: "pybytes \<Rightarrow> nat list" where
  "be_words (a # b # c # d # r) = (16777216 * a + 65536 * b + 256 * c + d) # be_words r"
| "be_words _ = []"

definition be_bytes4 :: "nat \<Rightarrow> pybytes" where
  "be_bytes4 x = [x div 16777216 mod 256, x div 65536 mod 256, x div 256 mod 256, x mod 256]"

definition sha1_pad :: "pybytes \<Rightarrow> pybytes" where
  "sha1_pad m =
     m @ [128] @ replicate ((119 - length m mod 64) mod 64) 0 @
     be_bytes4 (8 * length m div 4294967296) @ be_bytes4 (8 * length m)"

definition sha1_f :: "nat \<Rightarrow> nat \<Rightarrow> nat \<Rightarrow> nat \<Rightarrow> nat" where
  "sha1_f t b c d =
     (if t < 20 then (b AND c) OR (not32 b AND d)
      else if t < 40 then b XOR c XOR d
      else if t < 60 then (b AND c) OR (b AND d) OR (c AND d)
      else b XOR c XOR d)"

definition sha1_k :: "nat \<Rightarrow> nat" where
  "sha1_k t =
     (if t < 20 then 0x5A827999
      else if t < 40 then 0x6ED9EBA1
      else if t < 60 then 0x8F1BBCDC
      else 0xCA62C1D6)"

type_synonym sha1_state = "nat \<times> nat \<times> nat \<times> nat \<times> nat"

text \<open>
  The message schedule is kept as a window of sixteen words, the oldest first: the word of
  round \<open>t\<close> is its head, and the word of round \<open>t + 16\<close> is computed from it.
\<close>

fun sha1_next :: "nat list \<Rightarrow> nat" where
  "sha1_next (w0 # w1 # w2 # w3 # w4 # w5 # w6 # w7 # w8 # w9 # w10 # w11 # w12 # w13 # r) =
     rotl32 1 (w13 XOR w8 XOR w2 XOR w0)"
| "sha1_next _ = 0"

definition sha1_round :: "nat \<Rightarrow> nat \<Rightarrow> sha1_state \<Rightarrow> sha1_state" where
  "sha1_round t w s =
     (case s of (a, b, c, d, e) \<Rightarrow>
        (add32 (add32 (add32 (add32 (rotl32 5 a) (sha1_f t b c d)) e) (sha1_k t)) w,
         a, rotl32 30 b, c, d))"

function sha1_rounds :: "nat \<Rightarrow> nat list \<Rightarrow> sha1_state \<Rightarrow> sha1_state" where
  "sha1_rounds t w s =
     (if t < 80
      then sha1_rounds (t + 1) (tl w @ [sha1_next w]) (sha1_round t (hd w) s)
      else s)"
  by pat_completeness auto
termination
  by (relation "measure (\<lambda>(t, w, s). 80 - t)") auto

declare sha1_rounds.simps [simp del]

definition sha1_add :: "sha1_state \<Rightarrow> sha1_state \<Rightarrow> sha1_state" where
  "sha1_add s s' =
     (case s of (a, b, c, d, e) \<Rightarrow> case s' of (a', b', c', d', e') \<Rightarrow>
        (add32 a a', add32 b b', add32 c c', add32 d d', add32 e e'))"

definition sha1_compress :: "sha1_state \<Rightarrow> pybytes \<Rightarrow> sha1_state" where
  "sha1_compress h blk = sha1_add h (sha1_rounds 0 (be_words blk) h)"

function sha1_blocks :: "sha1_state \<Rightarrow> pybytes \<Rightarrow> sha1_state" where
  "sha1_blocks h bs =
     (if bs = [] then h else sha1_blocks (sha1_compress h (take 64 bs)) (drop 64 bs))"
  by pat_completeness auto
termination
  by (relation "measure (\<lambda>(h, bs). length bs)") auto

declare sha1_blocks.simps [simp del]

definition sha1_init :: sha1_state where
  "sha1_init = (0x67452301, 0xEFCDAB89, 0x98BADCFE, 0x10325476, 0xC3D2E1F0)"

definition sha1 :: "pybytes \<Rightarrow> pybytes" where
  "sha1 m =
     (case sha1_blocks sha1_init (sha1_pad m) of (a, b, c, d, e) \<Rightarrow>
        be_bytes4 a @ be_bytes4 b @ be_bytes4 c @ be_bytes4 d @ be_bytes4 e)"

text \<open>\<open>hmac.new(key, msg, hashlib.sha1).digest()\<close>, with the block size 64 of SHA-1.\<close>

definition hmac_key :: "pybytes \<Rightarrow> pybytes" where
  "hmac_key key =
     (if 64 < length key then sha1 key @ replicate 44 0
      else key @ replicate (64 - length key) 0)"

definition hmac_sha1 :: "pybytes \<Rightarrow> pybytes \<Rightarrow> pybytes" where
  "hmac_sha1 key msg =
     sha1 (map (\<lambda>b. b XOR 0x5C) (hmac_key key) @
           sha1 (map (\<lambda>b. b XOR 0x36) (hmac_key key) @ msg))"

text \<open>\<open>base64.b64encode\<close>: the standard alphabet, padded with \<open>=\<close>.\<close>

definition b64char :: "nat \<Rightarrow> nat" where
  "b64char n =
     (if n < 26 then 65 + n
      else if n < 52 then 71 + n
      else if n < 62 then n - 4
      else if n = 62 then 43
      else 47)"

fun b64encode :: "pybytes \<Rightarrow> pybytes" where
  "b64encode (a # b # c # r) =
     b64char (a div 4) # b64char (a mod 4 * 16 + b div 16) #
     b64char (b mod 16 * 4 + c div 64) # b64char (c mod 64) # b64encode r"
| "b64encode [a, b] =
     [b64char (a div 4), b64char (a mod 4 * 16 + b div 16), b64char (b mod 16 * 4), 61]"
| "b64encode [a] = [b64char (a div 4), b64char (a mod 4 * 16), 61, 61]"
| "b64encode [] = []"

section \<open>The plugin's configuration and the signed request\<close>

text \<open>
  The fields of \<open>AliyunCensor\<close> that the check reads; the source types them as strings
  (\<open>params_a: Dict[str, str]\<close>, \<open>self.access_key_secret + "&"\<close>).
\<close>

record config =
  endpoint :: pystr
  access_key_id :: pystr
  access_key_secret :: pystr

text \<open>
  \<open>datetime.now(timezone.utc)\<close> and \<open>uuid.uuid4()\<close> are read from the environment: the
  clock gives the fields of the time, the generator the 128-bit number of the UUID.
\<close>

record datetime =
  year :: nat
  month :: nat
  day :: nat
  hour :: nat
  minute :: nat
  second :: nat

definition digits2 :: "nat \<Rightarrow> pystr" where
  "digits2 n = [48 + n div 10 mod 10, 48 + n mod 10]"

text \<open>\<open>strftime("%Y-%m-%dT%H:%M:%SZ")\<close>.\<close>

definition strftime :: "datetime \<Rightarrow> pystr" where
  "strftime d =
     digits2 (year d div 100) @ digits2 (year d) @ [45] @ digits2 (month d) @ [45] @
     digits2 (day d) @ [84] @ digits2 (hour d) @ [58] @ digits2 (minute d) @ [58] @
     digits2 (second d) @ [90]"

definition hex_digits :: "nat \<Rightarrow> nat \<Rightarrow> pystr" where
  "hex_digits n x = map (\<lambda>i. hex_lower (x div 16 ^ i mod 16)) (rev [0..<n])"

text \<open>\<open>str(uuid)\<close>: 32 hexadecimal digits in the groups 8-4-4-4-12.\<close>

definition uuid_str :: "nat \<Rightarrow> pystr" where
  "uuid_str u =
     hex_digits 8 (u div 16 ^ 24) @ [45] @ hex_digits 4 (u div 16 ^ 20) @ [45] @
     hex_digits 4 (u div 16 ^ 16) @ [45] @ hex_digits 4 (u div 16 ^ 12) @ [45] @
     hex_digits 12 u"

type_synonym params = "(pystr \<times> pystr) list"

text \<open>The dictionary \<open>params_a\<close>, in its insertion order.\<close>

definition params_a :: "config \<Rightarrow> datetime \<Rightarrow> nat \<Rightarrow> pystr \<Rightarrow> params" where
  "params_a cfg t u content =
     [(py ''Format'', py ''JSON''),
      (py ''Version'', py ''2022-03-02''),
      (py ''AccessKeyId'', access_key_id cfg),
      (py ''SignatureMethod'', py ''HMAC-SHA1''),
      (py ''Timestamp'', strftime t),
      (py ''SignatureVersion'', py ''1.0''),
      (py ''SignatureNonce'', uuid_str u),
      (py ''Action'', py ''TextModerationPlus''),
      (py ''Service'', py ''chat_detection_pro''),
      (py ''ServiceParameters'', json_dumps_content content)]"

text \<open>The local function \<open>encode_a\<close>.\<close>

definition encode_a :: "pystr \<Rightarrow> exn + pystr" where
  "encode_a s =
     (case quote_plus s of
        Inl e \<Rightarrow> Inl e
      | Inr q \<Rightarrow>
          Inr (replace (py ''%7E'') (py ''~'')
                (replace (py ''*'') (py ''%2A'') (replace (py ''+'') (py ''%20'') q))))"

text \<open>
  The generator \<open>f"{encode_a(k)}={encode_a(v)}" for k, v in sorted_params\<close>: the first
  exception ends it.
\<close>

fun encode_pairs :: "params \<Rightarrow> exn + pystr list" where
  "encode_pairs [] = Inr []"
| "encode_pairs ((k, v) # ps) =
     (case encode_a k of
        Inl e \<Rightarrow> Inl e
      | Inr ek \<Rightarrow>
          (case encode_a v of
             Inl e \<Rightarrow> Inl e
           | Inr ev \<Rightarrow>
               (case encode_pairs ps of
                  Inl e \<Rightarrow> Inl e
                | Inr es \<Rightarrow> Inr ((ek @ [61] @ ev) # es))))"

text \<open>
  \<open>canonicalized_query\<close>, from the dictionary: \<open>sorted(params_a.items())\<close> orders the pairs
  by key, then by value; \<open>sort\<close> does so with the lexicographic orders on pairs and on
  lists of code points.
\<close>

definition canonicalized_query :: "params \<Rightarrow> exn + pystr" where
  "canonicalized_query ps =
     (case encode_pairs (sort ps) of Inl e \<Rightarrow> Inl e | Inr es \<Rightarrow> Inr (join [38] es))"

definition string_to_sign :: "pystr \<Rightarrow> exn + pystr" where
  "string_to_sign cq =
     (case encode_a (py ''/'') of
        Inl e \<Rightarrow> Inl e
      | Inr es \<Rightarrow>
          (case encode_a cq of
             Inl e \<Rightarrow> Inl e
           | Inr ecq \<Rightarrow> Inr (py ''POST&'' @ es @ py ''&'' @ ecq)))"

definition signature :: "pystr \<Rightarrow> pystr \<Rightarrow> exn + pystr" where
  "signature secret sts =
     (case utf8_encode (secret @ py ''&'') of
        Inl e \<Rightarrow> Inl e
      | Inr key \<Rightarrow>
          (case utf8_encode sts of
             Inl e \<Rightarrow> Inl e
           | Inr msg \<Rightarrow> Inr (decode_ascii (b64encode (hmac_sha1 key msg)))))"

text \<open>
  The first part of \<open>_check_single_text\<close>, up to \<open>params_a["Signature"] = signature\<close>: the
  parameters that are posted. \<open>AList.update\<close> is the assignment to a dictionary key: the
  value of a key that is present is replaced in place, a new key is added at the end.
\<close>

definition build_request :: "config \<Rightarrow> datetime \<Rightarrow> nat \<Rightarrow> pystr \<Rightarrow> exn + params" where
  "build_request cfg t u content =
     (case canonicalized_query (params_a cfg t u content) of
        Inl e \<Rightarrow> Inl e
      | Inr cq \<Rightarrow>
          (case string_to_sign cq of
             Inl e \<Rightarrow> Inl e
           | Inr sts \<Rightarrow>
               (case signature (access_key_secret cfg) sts of
                  Inl e \<Rightarrow> Inl e
                | Inr sig \<Rightarrow>
                    Inr (AList.update (py ''Signature'') sig (params_a cfg t u content)))))"

section \<open>The response and the verdict of one segment (\<open>_check_single_text\<close>)\<close>

text \<open>
  A JSON value as \<open>response.json()\<close> returns it; an object is the list of the items of
  the dictionary. The code never computes with a number, so a float keeps its text.
\<close>

datatype json =
  JNull | JBool bool | JInt int | JFloat pystr | JStr pystr | JArr "json list"
| JObj "(pystr \<times> json) list"

text \<open>
  What \<open>session.post\<close> does: it raises, or it gives a response with a status, whose
  \<open>json()\<close> raises or returns a value.
\<close>

datatype http_outcome = Raises exn | Response nat "exn + json"

text \<open>
  The environment of one call of \<open>_check_single_text\<close>: the clock, the UUID generator,
  the network, which answers the posted endpoint and parameters, and the logging sink:
  \<open>log_error\<close> is \<open>None\<close> when \<open>logger.error\<close> returns and \<open>Some e\<close> when it raises \<open>e\<close>.
\<close>

record call_env =
  now :: datetime
  uuid4 :: nat
  post :: "pystr \<Rightarrow> params \<Rightarrow> http_outcome"
  log_error :: "exn option"

text \<open>\<open>logger.error(...)\<close> followed by \<open>return r\<close>.\<close>

definition log_then :: "exn option \<Rightarrow> 'a \<Rightarrow> exn + 'a" where
  "log_then lg r = (case lg of None \<Rightarrow> Inr r | Some e \<Rightarrow> Inl e)"

fun is_substring :: "pystr \<Rightarrow> pystr \<Rightarrow> bool" where
  "is_substring p [] = (p = [])"
| "is_substring p (c # cs) = (take (length p) (c # cs) = p \<or> is_substring p cs)"

text \<open>\<open>key in result\<close>, for the types a JSON value can have.\<close>

fun py_in :: "pystr \<Rightarrow> json \<Rightarrow> exn + bool" where
  "py_in key (JObj items) = Inr (key \<in> set (map fst items))"
| "py_in key (JArr xs) = Inr (JStr key \<in> set xs)"
| "py_in key (JStr s) = Inr (is_substring key s)"
| "py_in key _ = Inl TypeError"

text \<open>\<open>result[key]\<close> with a string key.\<close>

fun py_getitem :: "json \<Rightarrow> pystr \<Rightarrow> exn + json" where
  "py_getitem (JObj items) key =
     (case map_of items key of None \<Rightarrow> Inl KeyError | Some v \<Rightarrow> Inr v)"
| "py_getitem _ key = Inl TypeError"

text \<open>\<open>d.get(key, default)\<close>: only a dictionary has the method.\<close>

fun py_get :: "json \<Rightarrow> pystr \<Rightarrow> json \<Rightarrow> exn + json" where
  "py_get (JObj items) key dflt =
     Inr (case map_of items key of None \<Rightarrow> dflt | Some v \<Rightarrow> v)"
| "py_get _ key dflt = Inl AttributeError"

text \<open>
  \<open>str.lower()\<close>. An ASCII character is mapped by the ASCII rule. The lower case of any
  other character is given by the Unicode database, and can depend on its context (the
  final sigma): it is the parameter \<open>ucd\<close>, which gets the string and the position.
\<close>

definition ascii_lower :: "nat \<Rightarrow> nat" where
  "ascii_lower c = (if 65 \<le> c \<and> c \<le> 90 then c + 32 else c)"

definition str_lower :: "(pystr \<Rightarrow> nat \<Rightarrow> pystr) \<Rightarrow> pystr \<Rightarrow> pystr" where
  "str_lower ucd s =
     concat (map (\<lambda>i. if s ! i < 128 then [ascii_lower (s ! i)] else ucd s i) [0..<length s])"

text \<open>\<open>x.lower()\<close>: only a string has the method.\<close>

fun py_lower :: "(pystr \<Rightarrow> nat \<Rightarrow> pystr) \<Rightarrow> json \<Rightarrow> exn + pystr" where
  "py_lower ucd (JStr s) = Inr (str_lower ucd s)"
| "py_lower ucd _ = Inl AttributeError"

text \<open>The body of the \<open>async with session.post(...) as response\<close> block.\<close>

definition check_response ::
  "(pystr \<Rightarrow> nat \<Rightarrow> pystr) \<Rightarrow> exn option \<Rightarrow> http_outcome \<Rightarrow> exn + bool" where
  "check_response ucd lg out =
     (case out of
        Raises e \<Rightarrow> Inl e
      | Response status body \<Rightarrow>
          if status \<noteq> 200 then log_then lg False
          else
            (case body of
               Inl e \<Rightarrow> Inl e
             | Inr result \<Rightarrow>
                 (case py_in (py ''Data'') result of
                    Inl e \<Rightarrow> Inl e
                  | Inr has_data \<Rightarrow>
                      if \<not> has_data then log_then lg False
                      else
                        (case py_getitem result (py ''Data'') of
                           Inl e \<Rightarrow> Inl e
                         | Inr data \<Rightarrow>
                             (case py_get data (py ''RiskLevel'') (JStr []) of
                                Inl e \<Rightarrow> Inl e
                              | Inr rl \<Rightarrow>
                                  (case py_lower ucd rl of
                                     Inl e \<Rightarrow> Inl e
                                   | Inr risk_level \<Rightarrow> Inr (risk_level \<noteq> py ''high'')))))))"

text \<open>
  The body of the \<open>try\<close> of \<open>_check_single_text\<close>. Beside its result it gives the requests
  that were posted, each with its endpoint and parameters.
\<close>

type_synonym request = "pystr \<times> params"

definition check_single_text_try ::
  "(pystr \<Rightarrow> nat \<Rightarrow> pystr) \<Rightarrow> config \<Rightarrow> call_env \<Rightarrow> pystr \<Rightarrow> (exn + bool) \<times> request list" where
  "check_single_text_try ucd cfg env content =
     (case build_request cfg (now env) (uuid4 env) content of
        Inl e \<Rightarrow> (Inl e, [])
      | Inr req \<Rightarrow>
          (check_response ucd (log_error env) (post env (endpoint cfg) req),
           [(endpoint cfg, req)]))"

text \<open>
  The two handlers: \<open>except aiohttp.ClientError\<close> and \<open>except Exception\<close> both log and
  return \<open>False\<close>. An exception of the logger inside a handler leaves \<open>_check_single_text\<close>.
\<close>

fun handler :: "exn option \<Rightarrow> exn \<Rightarrow> exn + bool" where
  "handler lg ClientError = log_then lg False"
| "handler lg _ = log_then lg False"

definition check_single_text ::
  "(pystr \<Rightarrow> nat \<Rightarrow> pystr) \<Rightarrow> config \<Rightarrow> call_env \<Rightarrow> pystr \<Rightarrow> (exn + bool) \<times> request list" where
  "check_single_text ucd cfg env content =
     (case check_single_text_try ucd cfg env content of
        (Inl e, posted) \<Rightarrow> (handler (log_error env) e, posted)
      | (Inr verdict, posted) \<Rightarrow> (Inr verdict, posted))"

text \<open>
  The outcome of a call that returned \<open>True\<close>: a call that returned \<open>False\<close> and a call
  that raised are both not allowed.
\<close>

definition allowed :: "exn + bool \<Rightarrow> bool" where
  "allowed r \<longleftrightarrow> r = Inr True"

section \<open>The verdict of a text (\<open>_check_text\<close>)\<close>

text \<open>
  \<open>await asyncio.gather(*tasks)\<close>: the results of the tasks in their order, or the
  exception of a task that raised. When several tasks raise, the model takes the first in
  the order of the tasks; the handler of \<open>_check_text\<close> does not look at the exception.
\<close>

fun gather :: "(exn + 'a) list \<Rightarrow> exn + 'a list" where
  "gather [] = Inr []"
| "gather (r # rs) =
     (case r of
        Inl e \<Rightarrow> Inl e
      | Inr v \<Rightarrow> (case gather rs of Inl e \<Rightarrow> Inl e | Inr vs \<Rightarrow> Inr (v # vs)))"

text \<open>
  The tasks are started in the order of the chunks; task \<open>i\<close> runs in the environment
  \<open>world i\<close>. The body of the \<open>try\<close> gives its result or its exception, and the requests
  that the tasks posted, in the order of the chunks.
\<close>

definition check_text_try ::
  "(pystr \<Rightarrow> nat \<Rightarrow> pystr) \<Rightarrow> config \<Rightarrow> (nat \<Rightarrow> call_env) \<Rightarrow> pystr \<Rightarrow>
     (exn + bool) \<times> request list" where
  "check_text_try ucd cfg world content =
     (if content = [] then (Inr True, [])
      else if length content \<le> 600 then check_single_text ucd cfg (world 0) content
      else
        (let chunks = split_text content;
             tasks = map (\<lambda>(i, chunk). check_single_text ucd cfg (world i) chunk)
                       (enumerate 0 chunks)
         in ((case gather (map fst tasks) of
                Inl e \<Rightarrow> Inl e
              | Inr results \<Rightarrow> Inr (list_all (\<lambda>r. r) results)),
             concat (map snd tasks))))"

text \<open>\<open>_check_text\<close>: the handler \<open>except Exception\<close> returns \<open>False\<close>.\<close>

definition check_text ::
  "(pystr \<Rightarrow> nat \<Rightarrow> pystr) \<Rightarrow> config \<Rightarrow> (nat \<Rightarrow> call_env) \<Rightarrow> pystr \<Rightarrow> bool \<times> request list" where
  "check_text ucd cfg world content =
     (case check_text_try ucd cfg world content of
        (Inl e, posted) \<Rightarrow> (False, posted)
      | (Inr verdict, posted) \<Rightarrow> (verdict, posted))"

section \<open>Predicates on strings\<close>

text \<open>
  A string of ASCII characters; a string that \<open>str.encode("utf-8")\<close> accepts (no
  surrogate); a list of bytes.
\<close>

definition ascii :: "pystr \<Rightarrow> bool" where
  "ascii s \<longleftrightarrow> list_all (\<lambda>c. c < 128) s"

definition encodable :: "pystr \<Rightarrow> bool" where
  "encodable s \<longleftrightarrow> list_all (\<lambda>c. c < 0xD800 \<or> (0xE000 \<le> c \<and> c < 0x110000)) s"

definition bytes :: "pybytes \<Rightarrow> bool" where
  "bytes bs \<longleftrightarrow> list_all (\<lambda>b. b < 256) bs"

section \<open>Example configuration and environments\<close>

text \<open>
  A configuration, an environment whose network gives one fixed answer and whose logger
  works, the same with a logger that raises, answers of the moderation service with a given
  risk level, and a stand-in for the Unicode database that leaves every non-ASCII character
  as it is. They are used to run the model on examples.
\<close>

definition demo_config :: config where
  "demo_config =
     \<lparr>endpoint = py ''https://green-cip.cn-shanghai.aliyuncs.com'',
      access_key_id = py ''testid'', access_key_secret = py ''testsecret''\<rparr>"

definition demo_time :: datetime where
  "demo_time = \<lparr>year = 2025, month = 1, day = 2, hour = 3, minute = 4, second = 5\<rparr>"

definition answering :: "http_outcome \<Rightarrow> call_env" where
  "answering out =
     \<lparr>now = demo_time, uuid4 = 0x0123456789abcdef0123456789abcdef, post = (\<lambda>url ps. out),
      log_error = None\<rparr>"

definition broken_logger :: "http_outcome \<Rightarrow> call_env" where
  "broken_logger out = (answering out)\<lparr>log_error := Some OtherError\<rparr>"

definition risk_answer :: "json \<Rightarrow> http_outcome" where
  "risk_answer v = Response 200 (Inr (JObj [(py ''Data'', JObj [(py ''RiskLevel'', v)])]))"

definition no_ucd :: "pystr \<Rightarrow> nat \<Rightarrow> pystr" where
  "no_ucd s i = [s ! i]"

definition always :: "call_env \<Rightarrow> nat \<Rightarrow> call_env" where
  "always env i = env"

definition second_fails :: "nat \<Rightarrow> call_env" where
  "second_fails i =
     (if i = 1 then answering (Response 500 (Inl OtherError))
      else answering (risk_answer (JStr (py ''low''))))"

definition third_logger_fails :: "nat \<Rightarrow> call_env" where
  "third_logger_fails i =
     (if i = 2 then broken_logger (Response 500 (Inl OtherError))
      else answering (risk_answer (JStr (py ''low''))))"

definition surrogate_config :: config where
  "surrogate_config = demo_config\<lparr>access_key_id := [0xD800]\<rparr>"

section \<open>Properties of the splitting\<close>

lemma step_div: "i < L \<Longrightarrow> Suc ((L - (i + 600) + 599) div 600) = (L - i + 599) div (600::nat)"
proof (cases "i + 600 \<le> L")
  case True
  then have "L - i + 599 = (L - (i + 600) + 599) + 600" by simp
  then show ?thesis by (simp only: div_add_self2)
next
  case False
  assume "i < L"
  with False have a: "600 * Suc 0 \<le> L - i + 599" and b: "L - i + 599 < 600 * Suc (Suc 0)" by simp_all
  have "(L - i + 599) div 600 = Suc 0" by (rule div_nat_eqI) (use a b in simp_all)
  with False show ?thesis by simp
qed

lemma split_from_concat: "concat (split_from i s) = drop i s"
proof (induction i s rule: split_from.induct)
  case (1 i content)
  show ?case
  proof (cases "i < length content")
    case True
    have "concat (split_from i content) = take 600 (drop i content) @ drop (i + 600) content"
      using True "1.IH" by (subst split_from.simps) simp
    also have "drop (i + 600) content = drop 600 (drop i content)"
      by (simp add: add.commute)
    also have "take 600 (drop i content) @ drop 600 (drop i content) = drop i content"
      by (rule append_take_drop_id)
    finally show ?thesis .
  next
    case False
    then show ?thesis by (subst split_from.simps) simp
  qed
qed

lemma split_from_length:
  "length (split_from i s) = (length s - i + 599) div 600"
proof (induction i s rule: split_from.induct)
  case (1 i content)
  show ?case
  proof (cases "i < length content")
    case True
    then have "length (split_from i content) = Suc ((length content - (i + 600) + 599) div 600)"
      using "1.IH" by (subst split_from.simps) simp
    also have "\<dots> = (length content - i + 599) div 600"
      using True by (rule step_div)
    finally show ?thesis .
  next
    case False
    then show ?thesis by (subst split_from.simps) simp
  qed
qed

lemma split_from_nth:
  "k < length (split_from i s) \<Longrightarrow> split_from i s ! k = take 600 (drop (i + 600 * k) s)"
proof (induction i s arbitrary: k rule: split_from.induct)
  case (1 i content)
  show ?case
  proof (cases "i < length content")
    case True
    then have unf: "split_from i content = take 600 (drop i content) # split_from (i + 600) content"
      by (subst split_from.simps) simp
    show ?thesis
    proof (cases k)
      case 0
      then show ?thesis by (simp add: unf)
    next
      case (Suc j)
      with "1.prems" unf have "j < length (split_from (i + 600) content)" by simp
      from "1.IH" [OF True this] Suc show ?thesis
        by (simp add: unf algebra_simps)
    qed
  next
    case False
    with "1.prems" show ?thesis by (subst (asm) split_from.simps) simp
  qed
qed

lemma split_text_concat: "concat (split_text s) = s"
  by (simp add: split_text_def split_from_concat)

lemma split_text_length: "length (split_text s) = (length s + 599) div 600"
  by (simp add: split_text_def split_from_length)

lemma split_text_nth:
  "k < length (split_text s) \<Longrightarrow> split_text s ! k = take 600 (drop (600 * k) s)"
  using split_from_nth [of k 0 s] by (simp add: split_text_def split: if_splits)

lemma ceiling_div_600: "nat \<lceil>real n / 600\<rceil> = (n + 599) div 600"
proof -
  define q r where "q = (n + 599) div 600" and "r = (n + 599) mod 600"
  have e: "n + 599 = 600 * q + r" and r: "r < 600" by (simp_all add: q_def r_def)
  have "\<lceil>real n / 600\<rceil> = int q"
  proof (rule ceiling_unique)
    from e r have "600 * q < n + 600" by linarith
    then have "real (600 * q) < real (n + 600)" by (simp only: of_nat_less_iff)
    then have "600 * real q < real n + 600" by (simp only: of_nat_add of_nat_mult of_nat_numeral)
    then show "of_int (int q) - 1 < real n / 600" by (simp add: field_simps)
    from e r have "n \<le> 600 * q" by linarith
    then have "real n \<le> real (600 * q)" by (simp only: of_nat_le_iff)
    then have "real n \<le> 600 * real q" by (simp only: of_nat_mult of_nat_numeral)
    then show "real n / 600 \<le> of_int (int q)" by (simp add: field_simps)
  qed
  then show ?thesis by (simp add: q_def)
qed

lemma chunk_index_bound: "k < (L + 599) div 600 \<Longrightarrow> 600 * k < (L::nat)"
proof -
  assume "k < (L + 599) div 600"
  then have "Suc k \<le> (L + 599) div 600" by simp
  then have "Suc k * 600 \<le> L + 599" by (simp only: less_eq_div_iff_mult_less_eq zero_less_numeral)
  then show ?thesis by simp
qed

lemma split_text_nth_length:
  assumes "k < length (split_text s)"
  shows "1 \<le> length (split_text s ! k)" and "length (split_text s ! k) \<le> 600"
    and "Suc k < length (split_text s) \<Longrightarrow> length (split_text s ! k) = 600"
proof -
  from assms have lt: "600 * k < length s"
    by (simp add: split_text_length chunk_index_bound)
  have len: "length (split_text s ! k) = min 600 (length s - 600 * k)"
    using assms by (simp add: split_text_nth min.commute)
  from lt len show "1 \<le> length (split_text s ! k)" by simp
  from len show "length (split_text s ! k) \<le> 600" by simp
  assume "Suc k < length (split_text s)"
  then have "600 * Suc k < length s"
    by (simp only: split_text_length chunk_index_bound)
  with len show "length (split_text s ! k) = 600" by simp
qed

text \<open>
  Claim C2. A text of more than 600 characters is split into \<open>ceil(L / 600)\<close> segments;
  segment \<open>k\<close> is the slice of the text from \<open>600 k\<close> to \<open>600 (k + 1)\<close>, so the segments are
  contiguous, disjoint and in the original order; each has at most 600 characters and every
  segment but the last has exactly 600; their concatenation is the text.
\<close>

theorem split_text_long:
  "600 < length T \<Longrightarrow>
     length (split_text T) = nat \<lceil>real (length T) / 600\<rceil> \<and>
     (\<forall>k < length (split_text T). split_text T ! k = take 600 (drop (600 * k) T)) \<and>
     (\<forall>k < length (split_text T). length (split_text T ! k) \<le> 600) \<and>
     (\<forall>k. Suc k < length (split_text T) \<longrightarrow> length (split_text T ! k) = 600) \<and>
     concat (split_text T) = T"
proof (intro conjI allI impI)
  show "length (split_text T) = nat \<lceil>real (length T) / 600\<rceil>"
    by (simp only: ceiling_div_600 split_text_length)
  show "concat (split_text T) = T"
    by (rule split_text_concat)
  fix k
  show "k < length (split_text T) \<Longrightarrow> split_text T ! k = take 600 (drop (600 * k) T)"
    by (rule split_text_nth)
  show "k < length (split_text T) \<Longrightarrow> length (split_text T ! k) \<le> 600"
    by (rule split_text_nth_length)
  show "Suc k < length (split_text T) \<Longrightarrow> length (split_text T ! k) = 600"
    by (rule split_text_nth_length) simp_all
qed

theorem split_text_long_witness:
  "600 < length (replicate 1300 (65::nat)) \<and>
   length (split_text (replicate 1300 65)) = 3 \<and>
   split_text (replicate 1300 65) ! 2 = replicate 100 65 \<and>
   length (split_text (replicate 1300 65) ! 1) = 600 \<and>
   concat (split_text (replicate 1300 65)) = replicate 1300 65"
proof -
  have h: "600 < length (replicate 1300 (65::nat))" by simp
  have c: "nat \<lceil>real (length (replicate 1300 (65::nat))) / 600\<rceil> = 3"
    by (simp add: ceiling_div_600)
  from split_text_long [OF h] c show ?thesis by simp
qed

text \<open>
  Claim C9. The result of the splitting is empty exactly for the empty string, and every
  chunk of a non-empty string has between 1 and 600 characters.
\<close>

theorem split_text_chunks_nonempty:
  "(split_text s = [] \<longleftrightarrow> s = []) \<and>
   (s \<noteq> [] \<longrightarrow> (\<forall>c \<in> set (split_text s). 1 \<le> length c \<and> length c \<le> 600))"
proof -
  have "split_text s = [] \<longleftrightarrow> s = []"
  proof
    assume "split_text s = []"
    then have "concat (split_text s) = []" by simp
    then show "s = []" by (simp only: split_text_concat)
  qed (simp add: split_text_def)
  moreover have "\<forall>c \<in> set (split_text s). 1 \<le> length c \<and> length c \<le> 600"
    by (auto simp: in_set_conv_nth split_text_nth_length simp del: One_nat_def)
  ultimately show ?thesis by simp
qed

theorem split_text_chunks_nonempty_witness:
  "split_text [] = [] \<and> split_text [104, 105] \<noteq> [] \<and>
   list_all (\<lambda>c. 1 \<le> length c \<and> length c \<le> 600) (split_text [104, 105])"
  using split_text_chunks_nonempty [of "[104, 105]"] split_text_chunks_nonempty [of "[]"]
  by (simp add: list_all_iff)

section \<open>Building the request never fails on encodable credentials\<close>

lemma ascii_Nil [simp]: "ascii []"
  by (simp add: ascii_def)

lemma ascii_Cons [simp]: "ascii (c # s) \<longleftrightarrow> c < 128 \<and> ascii s"
  by (simp add: ascii_def)

lemma ascii_append [simp]: "ascii (s @ t) \<longleftrightarrow> ascii s \<and> ascii t"
  by (simp add: ascii_def)

lemma ascii_concat: "(\<And>x. x \<in> set xs \<Longrightarrow> ascii x) \<Longrightarrow> ascii (concat xs)"
  by (induction xs) simp_all

lemma ascii_encodable: "ascii s \<Longrightarrow> encodable s"
  by (auto simp: ascii_def encodable_def list_all_iff)

lemma encodable_Nil [simp]: "encodable []"
  by (simp add: encodable_def)

lemma encodable_Cons [simp]:
  "encodable (c # s) \<longleftrightarrow> (c < 0xD800 \<or> (0xE000 \<le> c \<and> c < 0x110000)) \<and> encodable s"
  by (simp add: encodable_def)

lemma encodable_append [simp]: "encodable (s @ t) \<longleftrightarrow> encodable s \<and> encodable t"
  by (simp add: encodable_def)

lemma bytes_Nil [simp]: "bytes []"
  by (simp add: bytes_def)

lemma bytes_Cons [simp]: "bytes (b # bs) \<longleftrightarrow> b < 256 \<and> bytes bs"
  by (simp add: bytes_def)

lemma bytes_append [simp]: "bytes (s @ t) \<longleftrightarrow> bytes s \<and> bytes t"
  by (simp add: bytes_def)

lemma utf8_char_ok:
  "c < 0xD800 \<or> (0xE000 \<le> c \<and> c < 0x110000) \<Longrightarrow> \<exists>b. utf8_char c = Inr b"
  by (auto simp: utf8_char_def)

lemma utf8_char_fails:
  "\<not> (c < 0xD800 \<or> (0xE000 \<le> c \<and> c < 0x110000)) \<Longrightarrow> utf8_char c = Inl UnicodeEncodeError"
  by (auto simp: utf8_char_def)

lemma utf8_char_bytes: "utf8_char c = Inr b \<Longrightarrow> bytes b"
  by (auto simp: utf8_char_def split: if_splits)

lemma utf8_encode_ok: "encodable s \<Longrightarrow> \<exists>bs. utf8_encode s = Inr bs"
proof (induction s)
  case Nil
  then show ?case by simp
next
  case (Cons c s)
  then obtain b bs where "utf8_char c = Inr b" "utf8_encode s = Inr bs"
    using utf8_char_ok [of c] by auto
  then show ?case by simp
qed

lemma utf8_encode_fails: "\<not> encodable s \<Longrightarrow> utf8_encode s = Inl UnicodeEncodeError"
proof (induction s)
  case Nil
  then show ?case by simp
next
  case (Cons c s)
  show ?case
  proof (cases "c < 0xD800 \<or> (0xE000 \<le> c \<and> c < 0x110000)")
    case True
    with Cons have s: "utf8_encode s = Inl UnicodeEncodeError" by simp
    from True obtain b where "utf8_char c = Inr b" using utf8_char_ok by blast
    with s show ?thesis by simp
  next
    case False
    then have "utf8_char c = Inl UnicodeEncodeError" by (rule utf8_char_fails)
    then show ?thesis by simp
  qed
qed

lemma utf8_encode_bytes: "utf8_encode s = Inr bs \<Longrightarrow> bytes bs"
proof (induction s arbitrary: bs)
  case Nil
  then show ?case by simp
next
  case (Cons c s)
  then show ?case
    by (auto split: sum.splits dest: utf8_char_bytes)
qed

lemma utf8_encode_ascii: "ascii s \<Longrightarrow> utf8_encode s = Inr s"
  by (induction s) (simp_all add: utf8_char_def)

lemma hex_upper_ascii: "d < 16 \<Longrightarrow> hex_upper d < 128"
  by (simp add: hex_upper_def)

lemma hex_lower_ascii: "d < 16 \<Longrightarrow> hex_lower d < 128"
  by (simp add: hex_lower_def)

lemma ascii_percent: "b < 256 \<Longrightarrow> ascii (percent b)"
proof -
  assume "b < 256"
  then have "b div 16 < 16" by simp
  then show ?thesis by (simp add: percent_def hex_upper_ascii)
qed

lemma ascii_drop: "ascii s \<Longrightarrow> ascii (drop n s)"
  by (auto simp: ascii_def list_all_iff dest: in_set_dropD)

lemma ascii_quote_byte: "b < 256 \<Longrightarrow> ascii (quote_byte b)"
  by (auto simp: quote_byte_def ascii_percent always_safe_def)


lemma ascii_quote_bytes: "bytes bs \<Longrightarrow> ascii (concat (map quote_byte bs))"
  by (induction bs) (simp_all add: ascii_quote_byte)

lemma replace_ascii: "ascii new \<Longrightarrow> ascii s \<Longrightarrow> ascii (replace old new s)"
  by (induction old new s rule: replace.induct) (simp_all add: ascii_drop)

lemma quote_plus_ok: "encodable s \<Longrightarrow> \<exists>q. quote_plus s = Inr q \<and> ascii q"
proof -
  assume "encodable s"
  then obtain bs where bs: "utf8_encode s = Inr bs" using utf8_encode_ok by blast
  then have "bytes bs" by (rule utf8_encode_bytes)
  with bs show ?thesis by (simp add: quote_plus_def ascii_quote_bytes)
qed

lemma quote_plus_fails: "\<not> encodable s \<Longrightarrow> quote_plus s = Inl UnicodeEncodeError"
  by (simp add: quote_plus_def utf8_encode_fails)

lemma encode_a_ok: "encodable s \<Longrightarrow> \<exists>e. encode_a s = Inr e \<and> ascii e"
proof -
  assume "encodable s"
  then obtain q where "quote_plus s = Inr q" "ascii q" using quote_plus_ok by blast
  then show ?thesis
    by (simp add: encode_a_def replace_ascii py_def)
qed

lemma encode_a_fails: "\<not> encodable s \<Longrightarrow> encode_a s = Inl UnicodeEncodeError"
  by (simp add: encode_a_def quote_plus_fails)

lemma encode_pairs_ok:
  "list_all (\<lambda>(k, v). encodable k \<and> encodable v) ps \<Longrightarrow>
     \<exists>es. encode_pairs ps = Inr es \<and> list_all ascii es"
proof (induction ps)
  case Nil
  then show ?case by simp
next
  case (Cons p ps)
  obtain k v where p: "p = (k, v)" by (cases p)
  with Cons.prems obtain ek ev where "encode_a k = Inr ek" "ascii ek" "encode_a v = Inr ev" "ascii ev"
    using encode_a_ok [of k] encode_a_ok [of v] by auto
  moreover from Cons obtain es where "encode_pairs ps = Inr es" "list_all ascii es" by auto
  ultimately show ?case by (simp add: p)
qed

lemma ascii_join: "ascii sep \<Longrightarrow> list_all ascii xs \<Longrightarrow> ascii (join sep xs)"
  by (induction sep xs rule: join.induct) simp_all

lemma canonicalized_query_ok:
  "list_all (\<lambda>(k, v). encodable k \<and> encodable v) ps \<Longrightarrow>
     \<exists>cq. canonicalized_query ps = Inr cq \<and> ascii cq"
proof -
  assume "list_all (\<lambda>(k, v). encodable k \<and> encodable v) ps"
  then have "list_all (\<lambda>(k, v). encodable k \<and> encodable v) (sort ps)"
    by (simp add: list_all_iff)
  then obtain es where "encode_pairs (sort ps) = Inr es" "list_all ascii es"
    using encode_pairs_ok by blast
  then show ?thesis by (simp add: canonicalized_query_def ascii_join)
qed

lemma string_to_sign_ok: "ascii cq \<Longrightarrow> \<exists>sts. string_to_sign cq = Inr sts \<and> ascii sts"
proof -
  assume "ascii cq"
  then obtain ecq where "encode_a cq = Inr ecq" "ascii ecq"
    using encode_a_ok ascii_encodable by blast
  moreover obtain es where "encode_a (py ''/'') = Inr es" "ascii es"
    using encode_a_ok [of "py ''/''"] by (auto simp: py_def)
  ultimately show ?thesis by (simp add: string_to_sign_def py_def)
qed

lemma signature_ok: "encodable secret \<Longrightarrow> ascii sts \<Longrightarrow> \<exists>sig. signature secret sts = Inr sig"
proof -
  assume "encodable secret" "ascii sts"
  then obtain key where "utf8_encode (secret @ py ''&'') = Inr key"
    using utf8_encode_ok [of "secret @ py ''&''"] by (auto simp: py_def)
  moreover have "utf8_encode sts = Inr sts" using \<open>ascii sts\<close> by (rule utf8_encode_ascii)
  ultimately show ?thesis by (simp add: signature_def)
qed

lemma signature_fails: "\<not> encodable secret \<Longrightarrow> signature secret sts = Inl UnicodeEncodeError"
  by (simp add: signature_def utf8_encode_fails)

lemma ascii_json_u: "ascii (json_u n)"
  by (simp add: json_u_def hex_lower_ascii)

lemma ascii_json_escape_char: "ascii (json_escape_char c)"
  by (simp add: json_escape_char_def ascii_json_u)

lemma ascii_json_dumps_content: "ascii (json_dumps_content content)"
proof -
  have "ascii (concat (map json_escape_char content))"
    by (rule ascii_concat) (auto simp: ascii_json_escape_char)
  then show ?thesis by (simp add: json_dumps_content_def py_def)
qed

lemma digit_ascii: "48 + m mod 10 < (128::nat)"
proof -
  have "m mod 10 < 10" by simp
  then show ?thesis by linarith
qed

lemma ascii_digits2: "ascii (digits2 n)"
  by (simp add: digits2_def digit_ascii)

lemma ascii_strftime: "ascii (strftime d)"
  by (simp add: strftime_def ascii_digits2)

lemma ascii_hex_digits: "ascii (hex_digits n x)"
  by (simp add: hex_digits_def ascii_def list_all_iff hex_lower_ascii)

lemma ascii_uuid_str: "ascii (uuid_str u)"
  by (simp add: uuid_str_def ascii_hex_digits)

lemma params_a_encodable:
  "encodable (access_key_id cfg) \<Longrightarrow>
     list_all (\<lambda>(k, v). encodable k \<and> encodable v) (params_a cfg t u content)"
  by (simp add: params_a_def py_def ascii_encodable ascii_strftime ascii_uuid_str
      ascii_json_dumps_content)

lemma build_request_ok:
  assumes "encodable (access_key_id cfg)" and "encodable (access_key_secret cfg)"
  shows "\<exists>req. build_request cfg t u content = Inr req"
proof -
  from assms(1) obtain cq where "canonicalized_query (params_a cfg t u content) = Inr cq" "ascii cq"
    using canonicalized_query_ok params_a_encodable by blast
  moreover from this obtain sts where "string_to_sign cq = Inr sts" "ascii sts"
    using string_to_sign_ok by blast
  moreover from this assms(2) obtain sig where "signature (access_key_secret cfg) sts = Inr sig"
    using signature_ok by blast
  ultimately show ?thesis by (simp add: build_request_def)
qed

section \<open>The verdict of a text\<close>

lemma split_text_short: "s \<noteq> [] \<Longrightarrow> length s \<le> 600 \<Longrightarrow> split_text s = [s]"
proof -
  assume a: "s \<noteq> []" "length s \<le> 600"
  then have "split_from 0 s = take 600 (drop 0 s) # split_from 600 s"
    by (subst split_from.simps) simp
  moreover from a have "split_from 600 s = []"
    by (subst split_from.simps) simp
  ultimately show ?thesis using a by (simp add: split_text_def)
qed

lemma allowed_Inr [simp]: "allowed (Inr b) = b"
  by (simp add: allowed_def)

lemma allowed_Inl [simp]: "allowed (Inl e) = False"
  by (simp add: allowed_def)

lemma not_allowed_log_then [simp]: "\<not> allowed (log_then lg False)"
  by (simp add: log_then_def split: option.splits)

lemma log_then_None [simp]: "log_then None r = Inr r"
  by (simp add: log_then_def)

lemma log_then_Some [simp]: "log_then (Some e) r = Inl e"
  by (simp add: log_then_def)

lemma gather_all:
  "(case gather rs of Inl e \<Rightarrow> False | Inr vs \<Rightarrow> list_all (\<lambda>r. r) vs) = list_all allowed rs"
proof (induction rs)
  case Nil
  then show ?case by simp
next
  case (Cons r rs)
  then show ?case
    by (cases r; cases "gather rs") auto
qed

lemma check_text_empty: "check_text ucd cfg world [] = (True, [])"
  by (simp add: check_text_def check_text_try_def)

lemma check_text_short:
  "s \<noteq> [] \<Longrightarrow> length s \<le> 600 \<Longrightarrow>
     check_text ucd cfg world s =
       (allowed (fst (check_single_text ucd cfg (world 0) s)),
        snd (check_single_text ucd cfg (world 0) s))"
proof -
  assume "s \<noteq> []" "length s \<le> 600"
  then have "check_text_try ucd cfg world s = check_single_text ucd cfg (world 0) s"
    by (simp add: check_text_try_def)
  then show ?thesis
    by (cases "check_single_text ucd cfg (world 0) s")
       (auto simp: check_text_def split: sum.splits)
qed

lemma check_text_long:
  "600 < length s \<Longrightarrow>
     check_text ucd cfg world s =
       (list_all allowed (map (\<lambda>(i, chunk). fst (check_single_text ucd cfg (world i) chunk))
          (enumerate 0 (split_text s))),
        concat (map (\<lambda>(i, chunk). snd (check_single_text ucd cfg (world i) chunk))
          (enumerate 0 (split_text s))))"
proof -
  assume "600 < length s"
  then have ne: "s \<noteq> []" "\<not> length s \<le> 600" by auto
  define tasks where
    "tasks = map (\<lambda>(i, chunk). check_single_text ucd cfg (world i) chunk)
       (enumerate 0 (split_text s))"
  have body: "check_text_try ucd cfg world s =
      ((case gather (map fst tasks) of Inl e \<Rightarrow> Inl e
        | Inr results \<Rightarrow> Inr (list_all (\<lambda>r. r) results)),
       concat (map snd tasks))"
    using ne by (simp add: check_text_try_def Let_def tasks_def)
  have "check_text ucd cfg world s =
      ((case gather (map fst tasks) of Inl e \<Rightarrow> False | Inr vs \<Rightarrow> list_all (\<lambda>r. r) vs),
       concat (map snd tasks))"
    by (simp add: check_text_def body split: sum.splits)
  also have "\<dots> = (list_all allowed (map fst tasks), concat (map snd tasks))"
    by (simp only: gather_all)
  finally show ?thesis
    by (simp add: tasks_def comp_def split_def)
qed

lemma check_text_verdicts:
  "s \<noteq> [] \<Longrightarrow>
     fst (check_text ucd cfg world s) =
       list_all (\<lambda>r. r) (map (\<lambda>(i, chunk). allowed (fst (check_single_text ucd cfg (world i) chunk)))
          (enumerate 0 (split_text s)))"
proof (cases "length s \<le> 600")
  case True
  assume "s \<noteq> []"
  with True show ?thesis
    by (simp add: check_text_short split_text_short)
next
  case False
  then show ?thesis
    by (simp add: check_text_long list_all_iff split_def)
qed

lemma list_all_enumerate:
  "list_all (\<lambda>r. r) (map (\<lambda>(i, x). P i x) (enumerate 0 xs)) \<longleftrightarrow> (\<forall>i < length xs. P i (xs ! i))"
  by (auto simp: list_all_iff in_set_enumerate_eq)

text \<open>
  Claim C1. For a non-empty text the verdict of \<open>_check_text\<close> is the conjunction, over its
  segments, of "the call of \<open>_check_single_text\<close> on the segment returned true", segment
  \<open>i\<close> being checked in the environment of task \<open>i\<close>: the verdict is true exactly when
  every segment is allowed, so one segment that is blocked, or whose check raised, makes
  it false.
\<close>

theorem check_text_is_conjunction:
  "T \<noteq> [] \<Longrightarrow>
     fst (check_text ucd cfg world T) =
       list_all (\<lambda>r. r)
         (map (\<lambda>(i, chunk). allowed (fst (check_single_text ucd cfg (world i) chunk)))
            (enumerate 0 (split_text T))) \<and>
     (fst (check_text ucd cfg world T) \<longleftrightarrow>
       (\<forall>i < length (split_text T).
          allowed (fst (check_single_text ucd cfg (world i) (split_text T ! i)))))"
proof (rule conjI)
  assume "T \<noteq> []"
  then show "fst (check_text ucd cfg world T) =
       list_all (\<lambda>r. r)
         (map (\<lambda>(i, chunk). allowed (fst (check_single_text ucd cfg (world i) chunk)))
            (enumerate 0 (split_text T)))"
    by (rule check_text_verdicts)
  then show "fst (check_text ucd cfg world T) \<longleftrightarrow>
       (\<forall>i < length (split_text T).
          allowed (fst (check_single_text ucd cfg (world i) (split_text T ! i))))"
    by (simp only: list_all_enumerate)
qed

text \<open>
  Claim C8. For the empty text \<open>_check_text\<close> returns true, and no request is built or
  posted.
\<close>

theorem check_text_empty_true:
  "check_text ucd cfg world [] = (True, []) \<and> check_text_try ucd cfg world [] = (Inr True, [])"
  by (simp add: check_text_def check_text_try_def)

section \<open>The verdict of one segment\<close>

lemma handler_log [simp]: "handler lg e = log_then lg False"
  by (cases e) simp_all

lemma check_single_text_built:
  "build_request cfg (now env) (uuid4 env) s = Inr req \<Longrightarrow>
     check_single_text ucd cfg env s =
       ((case check_response ucd (log_error env) (post env (endpoint cfg) req) of
           Inl e \<Rightarrow> log_then (log_error env) False
         | Inr b \<Rightarrow> Inr b),
        [(endpoint cfg, req)])"
  by (simp add: check_single_text_def check_single_text_try_def split: sum.splits)

lemma check_single_text_unbuilt:
  "build_request cfg (now env) (uuid4 env) s = Inl e \<Longrightarrow>
     check_single_text ucd cfg env s = (log_then (log_error env) False, [])"
  by (simp add: check_single_text_def check_single_text_try_def)

lemma check_single_text_raises:
  "fst (check_single_text_try ucd cfg env s) = Inl e \<Longrightarrow>
     fst (check_single_text ucd cfg env s) = log_then (log_error env) False"
  by (cases "check_single_text_try ucd cfg env s") (simp add: check_single_text_def)

lemma py_in_dict: "map_of items k = Some v \<Longrightarrow> py_in k (JObj items) = Inr True"
  by (auto dest!: map_of_SomeD intro: rev_image_eqI)

lemma check_response_data:
  assumes "map_of body (py ''Data'') = Some d"
  shows "check_response ucd lg (Response 200 (Inr (JObj body))) =
     (case py_get d (py ''RiskLevel'') (JStr []) of
        Inl e \<Rightarrow> Inl e
      | Inr rl \<Rightarrow> (case py_lower ucd rl of Inl e \<Rightarrow> Inl e | Inr l \<Rightarrow> Inr (l \<noteq> py ''high'')))"
  using py_in_dict [OF assms] assms by (simp add: check_response_def del: py_in.simps)

lemma str_lower_Nil [simp]: "str_lower ucd [] = []"
  by (simp add: str_lower_def)

lemma concat_singletons: "concat (map (\<lambda>i. [f i]) xs) = map f xs"
  by (induction xs) simp_all

lemma str_lower_ascii: "ascii s \<Longrightarrow> str_lower ucd s = map ascii_lower s"
proof -
  assume a: "ascii s"
  have eq: "map (\<lambda>i. if s ! i < 128 then [ascii_lower (s ! i)] else ucd s i) [0..<length s]
      = map (\<lambda>i. [ascii_lower (s ! i)]) [0..<length s]"
    using a by (intro map_cong) (auto simp: ascii_def list_all_length)
  have "str_lower ucd s = map (\<lambda>i. ascii_lower (s ! i)) [0..<length s]"
    by (simp only: str_lower_def eq concat_singletons)
  also have "\<dots> = map ascii_lower (map (\<lambda>i. s ! i) [0..<length s])"
    by (simp add: comp_def)
  also have "\<dots> = map ascii_lower s" by (simp only: map_nth)
  finally show ?thesis .
qed

lemma risk_level_string:
  assumes "build_request cfg (now env) (uuid4 env) seg = Inr req"
    and "post env (endpoint cfg) req = Response 200 (Inr (JObj body))"
    and "map_of body (py ''Data'') = Some (JObj data)"
    and "map_of data (py ''RiskLevel'') = None \<and> rl = [] \<or>
         map_of data (py ''RiskLevel'') = Some (JStr rl)"
  shows "fst (check_single_text ucd cfg env seg) = Inr (str_lower ucd rl \<noteq> py ''high'')"
proof -
  have "py_get (JObj data) (py ''RiskLevel'') (JStr []) = Inr (JStr rl)"
    using assms(4) by auto
  then have "check_response ucd (log_error env) (post env (endpoint cfg) req)
      = Inr (str_lower ucd rl \<noteq> py ''high'')"
    by (simp add: assms(2) check_response_data [OF assms(3)])
  then show ?thesis
    by (simp add: check_single_text_built [OF assms(1)])
qed

lemma risk_level_not_string:
  assumes "build_request cfg (now env) (uuid4 env) seg = Inr req"
    and "post env (endpoint cfg) req = Response 200 (Inr (JObj body))"
    and "map_of body (py ''Data'') = Some (JObj data)"
    and "map_of data (py ''RiskLevel'') = Some v"
    and "\<forall>s. v \<noteq> JStr s"
  shows "fst (check_single_text_try ucd cfg env seg) = Inl AttributeError"
proof -
  have "py_lower ucd v = Inl AttributeError"
    using assms(5) by (cases v) simp_all
  then have "check_response ucd (log_error env) (post env (endpoint cfg) req) = Inl AttributeError"
    by (simp add: assms(2) assms(4) check_response_data [OF assms(3)])
  then show ?thesis
    by (simp add: check_single_text_try_def assms(1))
qed

lemma data_not_object:
  assumes "build_request cfg (now env) (uuid4 env) seg = Inr req"
    and "post env (endpoint cfg) req = Response 200 (Inr (JObj body))"
    and "map_of body (py ''Data'') = Some d"
    and "\<forall>data. d \<noteq> JObj data"
  shows "fst (check_single_text_try ucd cfg env seg) = Inl AttributeError"
proof -
  have "py_get d (py ''RiskLevel'') (JStr []) = Inl AttributeError"
    using assms(4) by (cases d) simp_all
  then have "check_response ucd (log_error env) (post env (endpoint cfg) req) = Inl AttributeError"
    by (simp add: assms(2) check_response_data [OF assms(3)])
  then show ?thesis
    by (simp add: check_single_text_try_def assms(1))
qed

text \<open>
  Claim C5, as amended. The request was posted and the answer has status 200 and a JSON
  object with a member \<open>Data\<close>. When \<open>Data\<close> is an object whose \<open>RiskLevel\<close> is a string or
  is absent (then the empty string stands for it), the verdict of the segment is true
  exactly when the lower-cased risk level is not \<open>high\<close>; for an ASCII risk level that is
  the comparison up to the case of its letters, and an absent risk level is allowed. When
  \<open>RiskLevel\<close> is present and is not a string, or \<open>Data\<close> is not an object, the segment is
  not allowed.
\<close>

theorem risk_level_verdict:
  assumes "build_request cfg (now env) (uuid4 env) seg = Inr req"
    and "post env (endpoint cfg) req = Response 200 (Inr (JObj body))"
    and "map_of body (py ''Data'') = Some d"
  shows
    "(\<forall>data rl. d = JObj data \<and>
        (map_of data (py ''RiskLevel'') = None \<and> rl = [] \<or>
         map_of data (py ''RiskLevel'') = Some (JStr rl)) \<longrightarrow>
        fst (check_single_text ucd cfg env seg) = Inr (str_lower ucd rl \<noteq> py ''high'') \<and>
        (ascii rl \<longrightarrow>
           fst (check_single_text ucd cfg env seg) = Inr (map ascii_lower rl \<noteq> py ''high''))) \<and>
     (\<forall>data. d = JObj data \<and> map_of data (py ''RiskLevel'') = None \<longrightarrow>
        fst (check_single_text ucd cfg env seg) = Inr True) \<and>
     (\<forall>data v. d = JObj data \<and> map_of data (py ''RiskLevel'') = Some v \<and> (\<forall>s. v \<noteq> JStr s) \<longrightarrow>
        \<not> allowed (fst (check_single_text ucd cfg env seg))) \<and>
     ((\<forall>data. d \<noteq> JObj data) \<longrightarrow> \<not> allowed (fst (check_single_text ucd cfg env seg)))"
proof (intro conjI allI impI)
  fix data rl
  assume h: "d = JObj data \<and>
        (map_of data (py ''RiskLevel'') = None \<and> rl = [] \<or>
         map_of data (py ''RiskLevel'') = Some (JStr rl))"
  with assms(3) have m: "map_of body (py ''Data'') = Some (JObj data)" by simp
  from h have r: "map_of data (py ''RiskLevel'') = None \<and> rl = [] \<or>
         map_of data (py ''RiskLevel'') = Some (JStr rl)" by simp
  show v: "fst (check_single_text ucd cfg env seg) = Inr (str_lower ucd rl \<noteq> py ''high'')"
    using assms(1,2) m r by (rule risk_level_string)
  show "fst (check_single_text ucd cfg env seg) = Inr (map ascii_lower rl \<noteq> py ''high'')"
    if "ascii rl"
    using v that by (simp add: str_lower_ascii)
next
  fix data
  assume h: "d = JObj data \<and> map_of data (py ''RiskLevel'') = None"
  with assms(3) have m: "map_of body (py ''Data'') = Some (JObj data)" by simp
  from h have "map_of data (py ''RiskLevel'') = None \<and> [] = [] \<or>
         map_of data (py ''RiskLevel'') = Some (JStr [])" by simp
  with assms(1,2) m
  have "fst (check_single_text ucd cfg env seg) = Inr (str_lower ucd [] \<noteq> py ''high'')"
    by (rule risk_level_string)
  then show "fst (check_single_text ucd cfg env seg) = Inr True"
    by (simp add: py_def)
next
  fix data v
  assume h: "d = JObj data \<and> map_of data (py ''RiskLevel'') = Some v \<and> (\<forall>s. v \<noteq> JStr s)"
  with assms(3) have m: "map_of body (py ''Data'') = Some (JObj data)" by simp
  from h have "map_of data (py ''RiskLevel'') = Some v" "\<forall>s. v \<noteq> JStr s" by simp_all
  with assms(1,2) m have "fst (check_single_text_try ucd cfg env seg) = Inl AttributeError"
    by (rule risk_level_not_string)
  then show "\<not> allowed (fst (check_single_text ucd cfg env seg))"
    by (simp add: check_single_text_raises)
next
  assume "\<forall>data. d \<noteq> JObj data"
  with assms have "fst (check_single_text_try ucd cfg env seg) = Inl AttributeError"
    by (rule data_not_object)
  then show "\<not> allowed (fst (check_single_text ucd cfg env seg))"
    by (simp add: check_single_text_raises)
qed

text \<open>
  Claim C10. When the answer has status 200 and a \<open>Data\<close> object whose \<open>RiskLevel\<close> is
  present and is not a string, \<open>lower\<close> raises \<open>AttributeError\<close> in the body of the \<open>try\<close>,
  the handler catches it, and the segment is blocked: the call returns false (when the
  logger of the handler itself raises, the call raises and the segment is not allowed
  either).
\<close>

theorem non_string_risk_level_blocked:
  assumes "build_request cfg (now env) (uuid4 env) seg = Inr req"
    and "post env (endpoint cfg) req = Response 200 (Inr (JObj body))"
    and "map_of body (py ''Data'') = Some (JObj data)"
    and "map_of data (py ''RiskLevel'') = Some v"
    and "\<forall>s. v \<noteq> JStr s"
  shows "fst (check_single_text_try ucd cfg env seg) = Inl AttributeError \<and>
         \<not> allowed (fst (check_single_text ucd cfg env seg)) \<and>
         (log_error env = None \<longrightarrow> fst (check_single_text ucd cfg env seg) = Inr False)"
proof -
  from assms have t: "fst (check_single_text_try ucd cfg env seg) = Inl AttributeError"
    by (rule risk_level_not_string)
  then have "fst (check_single_text ucd cfg env seg) = log_then (log_error env) False"
    by (rule check_single_text_raises)
  with t show ?thesis by simp
qed

section \<open>Failures give the verdict false\<close>

lemma log_then_False_cases:
  "r = log_then lg False \<Longrightarrow> \<not> allowed r \<and> (lg = None \<longrightarrow> r = Inr False)"
  by simp

lemma check_response_status:
  "st \<noteq> 200 \<Longrightarrow> check_response ucd lg (Response st b) = log_then lg False"
  by (simp add: check_response_def)

lemma check_response_no_data:
  "py_in (py ''Data'') result = Inr False \<Longrightarrow>
     check_response ucd lg (Response 200 (Inr result)) = log_then lg False"
  by (simp add: check_response_def)

lemma check_response_raises: "check_response ucd lg (Raises e) = Inl e"
  by (simp add: check_response_def)

lemma check_response_json_raises: "check_response ucd lg (Response 200 (Inl e)) = Inl e"
  by (simp add: check_response_def)

lemma log_then_case [simp]:
  "(case log_then lg False of Inl e \<Rightarrow> log_then lg False | Inr b \<Rightarrow> Inr b) = log_then lg False"
  by (cases lg) simp_all

lemma check_single_text_blocked:
  assumes "build_request cfg (now env) (uuid4 env) seg = Inr req"
    and "check_response ucd (log_error env) (post env (endpoint cfg) req) = log_then (log_error env) False \<or>
         (\<exists>e. check_response ucd (log_error env) (post env (endpoint cfg) req) = Inl e)"
  shows "fst (check_single_text ucd cfg env seg) = log_then (log_error env) False"
  using assms(2) by (auto simp: check_single_text_built [OF assms(1)])

lemma gather_raises:
  "(\<exists>e. gather rs = Inl e) \<longleftrightarrow> (\<exists>r \<in> set rs. \<exists>e. r = Inl e)"
proof (induction rs)
  case Nil
  then show ?case by simp
next
  case (Cons r rs)
  show ?case
  proof (cases r)
    case (Inl e)
    then show ?thesis by auto
  next
    case (Inr v)
    with Cons show ?thesis
      by (cases "gather rs") auto
  qed
qed

lemma check_text_try_raises:
  assumes "T \<noteq> []"
  shows "(\<exists>e. fst (check_text_try ucd cfg world T) = Inl e) \<longleftrightarrow>
     (\<exists>i < length (split_text T). \<exists>e.
        fst (check_single_text ucd cfg (world i) (split_text T ! i)) = Inl e)"
proof (cases "length T \<le> 600")
  case True
  with assms show ?thesis
    by (simp add: check_text_try_def split_text_short)
next
  case False
  define tasks where
    "tasks = map (\<lambda>(i, chunk). check_single_text ucd cfg (world i) chunk)
       (enumerate 0 (split_text T))"
  have "fst (check_text_try ucd cfg world T) =
      (case gather (map fst tasks) of Inl e \<Rightarrow> Inl e
        | Inr results \<Rightarrow> Inr (list_all (\<lambda>r. r) results))"
    using assms False by (simp add: check_text_try_def Let_def tasks_def)
  then have "(\<exists>e. fst (check_text_try ucd cfg world T) = Inl e) \<longleftrightarrow>
      (\<exists>e. gather (map fst tasks) = Inl e)"
    by (cases "gather (map fst tasks)") simp_all
  also have "\<dots> \<longleftrightarrow> (\<exists>r \<in> set (map fst tasks). \<exists>e. r = Inl e)"
    by (rule gather_raises)
  also have "\<dots> \<longleftrightarrow> (\<exists>i < length (split_text T). \<exists>e.
        fst (check_single_text ucd cfg (world i) (split_text T ! i)) = Inl e)"
    by (auto simp: tasks_def in_set_enumerate_eq image_iff Bex_def) metis
  finally show ?thesis .
qed

text \<open>
  Claim C6. \<open>_check_text\<close> returns a boolean in every environment: every exception \<open>e\<close> of
  the body of its \<open>try\<close> is caught and gives false, and that body raises exactly when the
  check of a segment raises (which it does only when the logger raises inside a handler).
  A segment that is not allowed makes the verdict of the text false. In
  \<open>_check_single_text\<close> a status other than 200, an answer with status 200 whose JSON
  value has no \<open>Data\<close>, a \<open>ClientError\<close> or any other exception of the network, an
  exception of the JSON decoder, an exception while the request is built, and in general
  every exception raised in the body of its \<open>try\<close>, leave the segment not allowed, and
  give the result false when the logger works.
\<close>

theorem check_text_fail_closed:
  "(\<forall>e. fst (check_text_try ucd cfg world T) = Inl e \<longrightarrow> fst (check_text ucd cfg world T) = False) \<and>
   (T \<noteq> [] \<longrightarrow>
      ((\<exists>e. fst (check_text_try ucd cfg world T) = Inl e) \<longleftrightarrow>
       (\<exists>i < length (split_text T). \<exists>e.
          fst (check_single_text ucd cfg (world i) (split_text T ! i)) = Inl e))) \<and>
   (T \<noteq> [] \<and>
      (\<exists>i < length (split_text T).
         \<not> allowed (fst (check_single_text ucd cfg (world i) (split_text T ! i)))) \<longrightarrow>
      fst (check_text ucd cfg world T) = False) \<and>
   (\<forall>req. build_request cfg (now env) (uuid4 env) seg = Inr req \<and>
      ((\<exists>st b. post env (endpoint cfg) req = Response st b \<and> st \<noteq> 200) \<or>
       (\<exists>result. post env (endpoint cfg) req = Response 200 (Inr result) \<and>
          py_in (py ''Data'') result = Inr False) \<or>
       post env (endpoint cfg) req = Raises ClientError \<or>
       (\<exists>e. post env (endpoint cfg) req = Raises e) \<or>
       (\<exists>e. post env (endpoint cfg) req = Response 200 (Inl e))) \<longrightarrow>
      \<not> allowed (fst (check_single_text ucd cfg env seg)) \<and>
      (log_error env = None \<longrightarrow> fst (check_single_text ucd cfg env seg) = Inr False)) \<and>
   (\<forall>e. build_request cfg (now env) (uuid4 env) seg = Inl e \<longrightarrow>
      \<not> allowed (fst (check_single_text ucd cfg env seg)) \<and>
      (log_error env = None \<longrightarrow> fst (check_single_text ucd cfg env seg) = Inr False)) \<and>
   (\<forall>e. fst (check_single_text_try ucd cfg env seg) = Inl e \<longrightarrow>
      \<not> allowed (fst (check_single_text ucd cfg env seg)) \<and>
      (log_error env = None \<longrightarrow> fst (check_single_text ucd cfg env seg) = Inr False)) \<and>
   (\<forall>e. fst (check_single_text ucd cfg env seg) = Inl e \<longrightarrow> log_error env = Some e)"
proof -
  have 1: "\<forall>e. fst (check_text_try ucd cfg world T) = Inl e \<longrightarrow> fst (check_text ucd cfg world T) = False"
    by (cases "check_text_try ucd cfg world T") (auto simp: check_text_def)
  have 2: "T \<noteq> [] \<longrightarrow>
      ((\<exists>e. fst (check_text_try ucd cfg world T) = Inl e) \<longleftrightarrow>
       (\<exists>i < length (split_text T). \<exists>e.
          fst (check_single_text ucd cfg (world i) (split_text T ! i)) = Inl e))"
    using check_text_try_raises by blast
  have 3: "T \<noteq> [] \<and>
      (\<exists>i < length (split_text T).
         \<not> allowed (fst (check_single_text ucd cfg (world i) (split_text T ! i)))) \<longrightarrow>
      fst (check_text ucd cfg world T) = False"
  proof
    assume h: "T \<noteq> [] \<and>
      (\<exists>i < length (split_text T).
         \<not> allowed (fst (check_single_text ucd cfg (world i) (split_text T ! i))))"
    then have ne: "T \<noteq> []" by simp
    have "fst (check_text ucd cfg world T) \<longleftrightarrow>
       (\<forall>i < length (split_text T).
          allowed (fst (check_single_text ucd cfg (world i) (split_text T ! i))))"
      by (simp only: check_text_verdicts [OF ne] list_all_enumerate)
    with h show "fst (check_text ucd cfg world T) = False" by blast
  qed
  have 4: "\<forall>req. build_request cfg (now env) (uuid4 env) seg = Inr req \<and>
      ((\<exists>st b. post env (endpoint cfg) req = Response st b \<and> st \<noteq> 200) \<or>
       (\<exists>result. post env (endpoint cfg) req = Response 200 (Inr result) \<and>
          py_in (py ''Data'') result = Inr False) \<or>
       post env (endpoint cfg) req = Raises ClientError \<or>
       (\<exists>e. post env (endpoint cfg) req = Raises e) \<or>
       (\<exists>e. post env (endpoint cfg) req = Response 200 (Inl e))) \<longrightarrow>
      \<not> allowed (fst (check_single_text ucd cfg env seg)) \<and>
      (log_error env = None \<longrightarrow> fst (check_single_text ucd cfg env seg) = Inr False)"
  proof (intro allI impI)
    fix req
    assume h: "build_request cfg (now env) (uuid4 env) seg = Inr req \<and>
      ((\<exists>st b. post env (endpoint cfg) req = Response st b \<and> st \<noteq> 200) \<or>
       (\<exists>result. post env (endpoint cfg) req = Response 200 (Inr result) \<and>
          py_in (py ''Data'') result = Inr False) \<or>
       post env (endpoint cfg) req = Raises ClientError \<or>
       (\<exists>e. post env (endpoint cfg) req = Raises e) \<or>
       (\<exists>e. post env (endpoint cfg) req = Response 200 (Inl e)))"
    then have b: "build_request cfg (now env) (uuid4 env) seg = Inr req" by simp
    from h have
      "check_response ucd (log_error env) (post env (endpoint cfg) req) = log_then (log_error env) False \<or>
       (\<exists>e. check_response ucd (log_error env) (post env (endpoint cfg) req) = Inl e)"
      by (auto simp: check_response_status check_response_no_data check_response_raises
          check_response_json_raises)
    with b have "fst (check_single_text ucd cfg env seg) = log_then (log_error env) False"
      by (rule check_single_text_blocked)
    then show "\<not> allowed (fst (check_single_text ucd cfg env seg)) \<and>
      (log_error env = None \<longrightarrow> fst (check_single_text ucd cfg env seg) = Inr False)"
      by (rule log_then_False_cases)
  qed
  have 5: "\<forall>e. build_request cfg (now env) (uuid4 env) seg = Inl e \<longrightarrow>
      \<not> allowed (fst (check_single_text ucd cfg env seg)) \<and>
      (log_error env = None \<longrightarrow> fst (check_single_text ucd cfg env seg) = Inr False)"
    by (simp add: check_single_text_unbuilt)
  have 6: "\<forall>e. fst (check_single_text_try ucd cfg env seg) = Inl e \<longrightarrow>
      \<not> allowed (fst (check_single_text ucd cfg env seg)) \<and>
      (log_error env = None \<longrightarrow> fst (check_single_text ucd cfg env seg) = Inr False)"
    by (simp add: check_single_text_raises)
  have 7: "\<forall>e. fst (check_single_text ucd cfg env seg) = Inl e \<longrightarrow> log_error env = Some e"
    by (cases "check_single_text_try ucd cfg env seg")
       (auto simp: check_single_text_def log_then_def split: sum.splits option.splits)
  from 1 2 3 4 5 6 7 show ?thesis by blast
qed

section \<open>A text of a single segment\<close>

lemma encode_a_Inr_encodable: "encode_a s = Inr e \<Longrightarrow> encodable s"
  using encode_a_fails [of s] by auto

lemma encode_pairs_Inr_encodable:
  "encode_pairs ps = Inr es \<Longrightarrow> list_all (\<lambda>(k, v). encodable k \<and> encodable v) ps"
proof (induction ps arbitrary: es)
  case Nil
  then show ?case by simp
next
  case (Cons p ps)
  obtain k v where p: "p = (k, v)" by (cases p)
  from Cons.prems obtain ek ev es' where
    "encode_a k = Inr ek" "encode_a v = Inr ev" "encode_pairs ps = Inr es'"
    by (auto simp: p split: sum.splits)
  then show ?case
    using Cons.IH by (simp add: p encode_a_Inr_encodable)
qed

lemma build_request_Inr_encodable:
  assumes "build_request cfg t u content = Inr req"
  shows "encodable (access_key_id cfg) \<and> encodable (access_key_secret cfg)"
proof -
  from assms obtain cq sts sig where
    cq: "canonicalized_query (params_a cfg t u content) = Inr cq" and
    sig: "signature (access_key_secret cfg) sts = Inr sig"
    by (auto simp: build_request_def split: sum.splits)
  from cq obtain es where "encode_pairs (sort (params_a cfg t u content)) = Inr es"
    by (auto simp: canonicalized_query_def split: sum.splits)
  then have "list_all (\<lambda>(k, v). encodable k \<and> encodable v) (sort (params_a cfg t u content))"
    by (rule encode_pairs_Inr_encodable)
  then have "list_all (\<lambda>(k, v). encodable k \<and> encodable v) (params_a cfg t u content)"
    by (simp add: list_all_iff)
  then have "encodable (access_key_id cfg)"
    by (simp add: params_a_def)
  moreover have "encodable (access_key_secret cfg)"
    using sig signature_fails [of "access_key_secret cfg" sts] by auto
  ultimately show ?thesis by simp
qed

lemma build_request_fails:
  "\<not> (encodable (access_key_id cfg) \<and> encodable (access_key_secret cfg)) \<Longrightarrow>
     \<exists>e. build_request cfg t u content = Inl e"
  using build_request_Inr_encodable [of cfg t u content]
  by (cases "build_request cfg t u content") auto

lemma build_request_params:
  assumes "build_request cfg t u content = Inr req"
  shows "\<exists>sig. req = params_a cfg t u content @ [(py ''Signature'', sig)]"
proof -
  from assms obtain sig where
    "req = AList.update (py ''Signature'') sig (params_a cfg t u content)"
    by (auto simp: build_request_def split: sum.splits)
  then have "req = params_a cfg t u content @ [(py ''Signature'', sig)]"
    by (simp add: params_a_def py_def)
  then show ?thesis ..
qed

lemma build_request_content:
  assumes "build_request cfg t u content = Inr req"
  shows "map_of req (py ''ServiceParameters'') = Some (json_dumps_content content)"
    and "py ''Signature'' \<in> fst ` set req"
proof -
  from build_request_params [OF assms] obtain sig where
    req: "req = params_a cfg t u content @ [(py ''Signature'', sig)]" ..
  show "map_of req (py ''ServiceParameters'') = Some (json_dumps_content content)"
    by (simp add: req params_a_def py_def)
  show "py ''Signature'' \<in> fst ` set req"
    by (simp add: req)
qed


text \<open>
  Claim C7, as amended. A non-empty text of at most 600 characters is checked by one call
  of \<open>_check_single_text\<close> on the whole text; \<open>_split_text\<close> gives the one-element list of
  the text, so the verdict is the conjunction over that single segment. When the access
  key id and secret can be encoded as UTF-8, exactly one signed request is posted, and it
  carries the whole text; when they cannot, the request cannot be built, none is posted and
  the verdict is false.
\<close>

theorem check_text_single_segment:
  assumes "T \<noteq> []" and "length T \<le> 600"
  shows "split_text T = [T] \<and>
     check_text ucd cfg world T =
       (allowed (fst (check_single_text ucd cfg (world 0) T)),
        snd (check_single_text ucd cfg (world 0) T)) \<and>
     fst (check_text ucd cfg world T) =
       list_all (\<lambda>r. r)
         (map (\<lambda>(i, chunk). allowed (fst (check_single_text ucd cfg (world i) chunk)))
            (enumerate 0 (split_text T))) \<and>
     (encodable (access_key_id cfg) \<and> encodable (access_key_secret cfg) \<longrightarrow>
        (\<exists>req. build_request cfg (now (world 0)) (uuid4 (world 0)) T = Inr req \<and>
           snd (check_text ucd cfg world T) = [(endpoint cfg, req)] \<and>
           map_of req (py ''ServiceParameters'') = Some (json_dumps_content T) \<and>
           py ''Signature'' \<in> fst ` set req)) \<and>
     (\<not> (encodable (access_key_id cfg) \<and> encodable (access_key_secret cfg)) \<longrightarrow>
        check_text ucd cfg world T = (False, []))"
proof (intro conjI impI)
  show "split_text T = [T]"
    using assms by (rule split_text_short)
  show short: "check_text ucd cfg world T =
       (allowed (fst (check_single_text ucd cfg (world 0) T)),
        snd (check_single_text ucd cfg (world 0) T))"
    using assms by (rule check_text_short)
  show "fst (check_text ucd cfg world T) =
       list_all (\<lambda>r. r)
         (map (\<lambda>(i, chunk). allowed (fst (check_single_text ucd cfg (world i) chunk)))
            (enumerate 0 (split_text T)))"
    using assms(1) by (rule check_text_verdicts)
  show "\<exists>req. build_request cfg (now (world 0)) (uuid4 (world 0)) T = Inr req \<and>
           snd (check_text ucd cfg world T) = [(endpoint cfg, req)] \<and>
           map_of req (py ''ServiceParameters'') = Some (json_dumps_content T) \<and>
           py ''Signature'' \<in> fst ` set req"
    if "encodable (access_key_id cfg) \<and> encodable (access_key_secret cfg)"
  proof -
    from that obtain req where
      req: "build_request cfg (now (world 0)) (uuid4 (world 0)) T = Inr req"
      using build_request_ok by blast
    then show ?thesis
      by (simp add: short check_single_text_built build_request_content)
  qed
  show "check_text ucd cfg world T = (False, [])"
    if "\<not> (encodable (access_key_id cfg) \<and> encodable (access_key_secret cfg))"
  proof -
    from that obtain e where "build_request cfg (now (world 0)) (uuid4 (world 0)) T = Inl e"
      using build_request_fails by blast
    then show ?thesis
      by (simp add: short check_single_text_unbuilt)
  qed
qed

section \<open>The model on examples\<close>

lemma demo_config_encodable:
  "encodable (access_key_id demo_config)" "encodable (access_key_secret demo_config)"
  by (simp_all add: demo_config_def py_def)

lemma demo_build: "\<exists>req. build_request demo_config t u seg = Inr req"
  using demo_config_encodable by (rule build_request_ok)

lemma surrogate_config_not_encodable: "\<not> encodable (access_key_id surrogate_config)"
  by (simp add: surrogate_config_def)

lemma answering_simps [simp]:
  "now (answering out) = demo_time" "post (answering out) url ps = out"
  "log_error (answering out) = None"
  by (simp_all add: answering_def)

lemma broken_logger_simps [simp]:
  "now (broken_logger out) = demo_time" "post (broken_logger out) url ps = out"
  "log_error (broken_logger out) = Some OtherError"
  by (simp_all add: broken_logger_def answering_def)

lemma always_simp [simp]: "always env i = env"
  by (simp add: always_def)

lemma status_blocked:
  "st \<noteq> 200 \<Longrightarrow> (\<And>ps. post env (endpoint cfg) ps = Response st b) \<Longrightarrow>
     fst (check_single_text ucd cfg env seg) = log_then (log_error env) False"
proof (cases "build_request cfg (now env) (uuid4 env) seg")
  case (Inl e)
  then show ?thesis by (simp add: check_single_text_unbuilt)
next
  case (Inr req)
  assume "st \<noteq> 200" "\<And>ps. post env (endpoint cfg) ps = Response st b"
  then have "check_response ucd (log_error env) (post env (endpoint cfg) req)
      = log_then (log_error env) False"
    by (simp add: check_response_status)
  with Inr show ?thesis by (simp add: check_single_text_blocked)
qed

lemma demo_status_blocked:
  "st \<noteq> 200 \<Longrightarrow> fst (check_single_text ucd cfg (answering (Response st b)) seg) = Inr False"
  using status_blocked [of st "answering (Response st b)" cfg b ucd seg] by simp

lemma broken_logger_raises:
  "st \<noteq> 200 \<Longrightarrow>
     fst (check_single_text ucd cfg (broken_logger (Response st b)) seg) = Inl OtherError"
  using status_blocked [of st "broken_logger (Response st b)" cfg b ucd seg] by simp

lemma demo_low_allowed:
  "fst (check_single_text ucd demo_config (answering (risk_answer (JStr (py ''low'')))) seg)
     = Inr True"
proof -
  obtain req where
    "build_request demo_config (now (answering (risk_answer (JStr (py ''low'')))))
       (uuid4 (answering (risk_answer (JStr (py ''low''))))) seg = Inr req"
    using demo_build by blast
  moreover have "check_response ucd lg (risk_answer (JStr (py ''low''))) = Inr True" for lg
  proof -
    have "ascii (py ''low'')" by (simp add: py_def)
    then have "str_lower ucd (py ''low'') = map ascii_lower (py ''low'')"
      by (rule str_lower_ascii)
    then have "str_lower ucd (py ''low'') \<noteq> py ''high''"
      by (simp add: py_def)
    moreover have "map_of [(py ''Data'', JObj [(py ''RiskLevel'', JStr (py ''low''))])] (py ''Data'')
        = Some (JObj [(py ''RiskLevel'', JStr (py ''low''))])"
      by simp
    ultimately show ?thesis
      by (simp add: risk_answer_def check_response_data)
  qed
  ultimately show ?thesis
    by (simp add: check_single_text_built)
qed

lemma hello_short: "py ''hello'' \<noteq> []" "length (py ''hello'') \<le> 600"
  by (simp_all add: py_def)

theorem check_text_is_conjunction_witness:
  "replicate 1300 (97::nat) \<noteq> [] \<and>
   length (split_text (replicate 1300 97)) = 3 \<and>
   fst (check_text no_ucd demo_config second_fails (replicate 1300 97)) = False \<and>
   fst (check_text no_ucd demo_config third_logger_fails (replicate 1300 97)) = False \<and>
   fst (check_text no_ucd demo_config (always (answering (risk_answer (JStr (py ''low'')))))
         (replicate 1300 97)) = True"
proof -
  have ne: "replicate 1300 (97::nat) \<noteq> []" by simp
  have len: "length (split_text (replicate 1300 97)) = 3"
    by (simp add: split_text_length)
  have "\<not> allowed (fst (check_single_text no_ucd demo_config (second_fails 1)
      (split_text (replicate 1300 97) ! 1)))"
    by (simp add: second_fails_def demo_status_blocked)
  then have "\<not> (\<forall>i < length (split_text (replicate 1300 97)).
      allowed (fst (check_single_text no_ucd demo_config (second_fails i)
        (split_text (replicate 1300 97) ! i))))"
    using len by (metis one_less_numeral_iff semiring_norm(77))
  with check_text_is_conjunction [OF ne, of no_ucd demo_config second_fails, THEN conjunct2]
  have 1: "fst (check_text no_ucd demo_config second_fails (replicate 1300 97)) = False"
    by blast
  have "\<not> allowed (fst (check_single_text no_ucd demo_config (third_logger_fails 2)
      (split_text (replicate 1300 97) ! 2)))"
    by (simp add: third_logger_fails_def broken_logger_raises)
  moreover have "(2::nat) < length (split_text (replicate 1300 97))"
    using len by simp
  ultimately have "\<not> (\<forall>i < length (split_text (replicate 1300 97)).
      allowed (fst (check_single_text no_ucd demo_config (third_logger_fails i)
        (split_text (replicate 1300 97) ! i))))"
    by blast
  with check_text_is_conjunction [OF ne, of no_ucd demo_config third_logger_fails, THEN conjunct2]
  have 2: "fst (check_text no_ucd demo_config third_logger_fails (replicate 1300 97)) = False"
    by blast
  from check_text_is_conjunction [OF ne, of no_ucd demo_config
      "always (answering (risk_answer (JStr (py ''low''))))", THEN conjunct2]
  have 3: "fst (check_text no_ucd demo_config (always (answering (risk_answer (JStr (py ''low'')))))
         (replicate 1300 97)) = True"
    by (simp add: demo_low_allowed)
  from ne len 1 2 3 show ?thesis by simp
qed

theorem risk_level_verdict_witness:
  "fst (check_single_text no_ucd demo_config (answering (risk_answer (JStr (py ''High''))))
         (py ''hello'')) = Inr False \<and>
   fst (check_single_text no_ucd demo_config (answering (risk_answer (JStr (py ''medium''))))
         (py ''hello'')) = Inr True \<and>
   fst (check_single_text no_ucd demo_config
         (answering (Response 200 (Inr (JObj [(py ''Data'', JObj [])])))) (py ''hello''))
     = Inr True \<and>
   allowed (fst (check_single_text no_ucd demo_config (answering (risk_answer (JBool True)))
         (py ''hello''))) = False \<and>
   allowed (fst (check_single_text no_ucd demo_config
         (answering (Response 200 (Inr (JObj [(py ''Data'', JArr [])])))) (py ''hello'')))
     = False"
proof -
  obtain req where
    b: "\<And>out. build_request demo_config (now (answering out)) (uuid4 (answering out)) (py ''hello'')
          = Inr req"
    using demo_build [of demo_time "0x0123456789abcdef0123456789abcdef" "py ''hello''"]
    by (auto simp: answering_def)
  have "map ascii_lower (py ''High'') = py ''high''" "ascii (py ''High'')"
    by (simp_all add: py_def ascii_lower_def)
  with risk_level_verdict [OF b, of "risk_answer (JStr (py ''High''))"
      "[(py ''Data'', JObj [(py ''RiskLevel'', JStr (py ''High''))])]"
      "JObj [(py ''RiskLevel'', JStr (py ''High''))]" no_ucd,
      THEN conjunct1, rule_format, of "[(py ''RiskLevel'', JStr (py ''High''))]" "py ''High''",
      THEN conjunct2, THEN mp]
  have 1: "fst (check_single_text no_ucd demo_config (answering (risk_answer (JStr (py ''High''))))
         (py ''hello'')) = Inr False"
    by (simp add: risk_answer_def)
  have "map ascii_lower (py ''medium'') \<noteq> py ''high''" "ascii (py ''medium'')"
    by (simp_all add: py_def ascii_lower_def)
  with risk_level_verdict [OF b, of "risk_answer (JStr (py ''medium''))"
      "[(py ''Data'', JObj [(py ''RiskLevel'', JStr (py ''medium''))])]"
      "JObj [(py ''RiskLevel'', JStr (py ''medium''))]" no_ucd,
      THEN conjunct1, rule_format, of "[(py ''RiskLevel'', JStr (py ''medium''))]" "py ''medium''",
      THEN conjunct2, THEN mp]
  have 2: "fst (check_single_text no_ucd demo_config (answering (risk_answer (JStr (py ''medium''))))
         (py ''hello'')) = Inr True"
    by (simp add: risk_answer_def)
  from risk_level_verdict [OF b, of "Response 200 (Inr (JObj [(py ''Data'', JObj [])]))"
      "[(py ''Data'', JObj [])]" "JObj []" no_ucd,
      THEN conjunct2, THEN conjunct1, rule_format, of "[]"]
  have 3: "fst (check_single_text no_ucd demo_config
         (answering (Response 200 (Inr (JObj [(py ''Data'', JObj [])])))) (py ''hello''))
     = Inr True"
    by simp
  from risk_level_verdict [OF b, of "risk_answer (JBool True)"
      "[(py ''Data'', JObj [(py ''RiskLevel'', JBool True)])]"
      "JObj [(py ''RiskLevel'', JBool True)]" no_ucd,
      THEN conjunct2, THEN conjunct2, THEN conjunct1, rule_format,
      of "[(py ''RiskLevel'', JBool True)]" "JBool True"]
  have 4: "allowed (fst (check_single_text no_ucd demo_config (answering (risk_answer (JBool True)))
         (py ''hello''))) = False"
    by (simp add: risk_answer_def)
  from risk_level_verdict [OF b, of "Response 200 (Inr (JObj [(py ''Data'', JArr [])]))"
      "[(py ''Data'', JArr [])]" "JArr []" no_ucd,
      THEN conjunct2, THEN conjunct2, THEN conjunct2]
  have 5: "allowed (fst (check_single_text no_ucd demo_config
         (answering (Response 200 (Inr (JObj [(py ''Data'', JArr [])])))) (py ''hello'')))
     = False"
    by simp
  from 1 2 3 4 5 show ?thesis by simp
qed

theorem risk_level_counterexample:
  "py_in (py ''Data'') (JObj [(py ''Data'', JObj [(py ''RiskLevel'', JNull)])]) = Inr True \<and>
   JNull \<noteq> JStr (py ''high'') \<and>
   fst (check_single_text no_ucd demo_config (answering (risk_answer JNull)) (py ''hello''))
     = Inr False \<and>
   py_in (py ''Data'') (JObj [(py ''Data'', JNull)]) = Inr True \<and>
   fst (check_single_text no_ucd demo_config
         (answering (Response 200 (Inr (JObj [(py ''Data'', JNull)])))) (py ''hello''))
     = Inr False"
proof -
  obtain req where
    b: "\<And>out. build_request demo_config (now (answering out)) (uuid4 (answering out)) (py ''hello'')
          = Inr req"
    using demo_build [of demo_time "0x0123456789abcdef0123456789abcdef" "py ''hello''"]
    by (auto simp: answering_def)
  have "fst (check_single_text_try no_ucd demo_config (answering (risk_answer JNull)) (py ''hello''))
      = Inl AttributeError"
    by (rule risk_level_not_string [OF b, of _ "[(py ''Data'', JObj [(py ''RiskLevel'', JNull)])]"
          "[(py ''RiskLevel'', JNull)]" JNull])
       (simp_all add: risk_answer_def)
  then have 1: "fst (check_single_text no_ucd demo_config (answering (risk_answer JNull))
      (py ''hello'')) = Inr False"
    by (simp add: check_single_text_raises)
  have "fst (check_single_text_try no_ucd demo_config
         (answering (Response 200 (Inr (JObj [(py ''Data'', JNull)])))) (py ''hello''))
      = Inl AttributeError"
    by (rule data_not_object [OF b, of _ "[(py ''Data'', JNull)]" JNull]) simp_all
  then have 2: "fst (check_single_text no_ucd demo_config
         (answering (Response 200 (Inr (JObj [(py ''Data'', JNull)])))) (py ''hello''))
     = Inr False"
    by (simp add: check_single_text_raises)
  from 1 2 show ?thesis by (simp add: py_def)
qed

theorem non_string_risk_level_blocked_witness:
  "fst (check_single_text no_ucd demo_config (answering (risk_answer (JInt 3))) (py ''hello''))
     = Inr False \<and>
   fst (check_single_text no_ucd demo_config (answering (risk_answer JNull)) (py ''hello''))
     = Inr False \<and>
   fst (check_single_text_try no_ucd demo_config (answering (risk_answer JNull)) (py ''hello''))
     = Inl AttributeError"
proof -
  obtain req where
    b: "\<And>out. build_request demo_config (now (answering out)) (uuid4 (answering out)) (py ''hello'')
          = Inr req"
    using demo_build [of demo_time "0x0123456789abcdef0123456789abcdef" "py ''hello''"]
    by (auto simp: answering_def)
  from non_string_risk_level_blocked [OF b, of "risk_answer (JInt 3)"
      "[(py ''Data'', JObj [(py ''RiskLevel'', JInt 3)])]"
      "[(py ''RiskLevel'', JInt 3)]" "JInt 3" no_ucd]
  have 1: "fst (check_single_text no_ucd demo_config (answering (risk_answer (JInt 3))) (py ''hello''))
     = Inr False"
    by (simp add: risk_answer_def)
  from non_string_risk_level_blocked [OF b, of "risk_answer JNull"
      "[(py ''Data'', JObj [(py ''RiskLevel'', JNull)])]"
      "[(py ''RiskLevel'', JNull)]" "JNull" no_ucd]
  have 2: "fst (check_single_text_try no_ucd demo_config (answering (risk_answer JNull)) (py ''hello''))
     = Inl AttributeError \<and>
     fst (check_single_text no_ucd demo_config (answering (risk_answer JNull)) (py ''hello''))
     = Inr False"
    by (simp add: risk_answer_def)
  from 1 2 show ?thesis by simp
qed


theorem check_text_fail_closed_witness:
  "fst (check_text_try no_ucd demo_config (always (broken_logger (Response 500 (Inl OtherError))))
         (py ''hello'')) = Inl OtherError \<and>
   fst (check_text no_ucd demo_config (always (broken_logger (Response 500 (Inl OtherError))))
         (py ''hello'')) = False \<and>
   fst (check_text no_ucd demo_config third_logger_fails (replicate 1300 97)) = False \<and>
   fst (check_single_text no_ucd demo_config (answering (Response 500 (Inl OtherError)))
         (py ''hello'')) = Inr False \<and>
   fst (check_single_text no_ucd demo_config
         (answering (Response 200 (Inr (JObj [(py ''foo'', JStr (py ''bar''))]))))
         (py ''hello'')) = Inr False \<and>
   fst (check_single_text no_ucd demo_config (answering (Raises ClientError)) (py ''hello''))
     = Inr False \<and>
   fst (check_single_text no_ucd demo_config (answering (Response 200 (Inl OtherError)))
         (py ''hello'')) = Inr False \<and>
   fst (check_single_text no_ucd surrogate_config (answering (risk_answer (JStr (py ''low''))))
         (py ''hello'')) = Inr False \<and>
   fst (check_text no_ucd demo_config (always (answering (Response 500 (Inl OtherError))))
         (py ''hello'')) = False"
proof -
  obtain req where
    b: "\<And>out. build_request demo_config (now (answering out)) (uuid4 (answering out)) (py ''hello'')
          = Inr req"
    using demo_build [of demo_time "0x0123456789abcdef0123456789abcdef" "py ''hello''"]
    by (auto simp: answering_def)
  obtain e where
    u: "\<And>out. build_request surrogate_config (now (answering out)) (uuid4 (answering out))
          (py ''hello'') = Inl e"
    using build_request_fails [of surrogate_config demo_time "0x0123456789abcdef0123456789abcdef"
        "py ''hello''"] surrogate_config_not_encodable
    by (auto simp: answering_def)
  have neq: "py ''Data'' \<noteq> py ''foo''"
    by (simp add: py_def)
  have ne: "replicate 1300 (97::nat) \<noteq> []" by simp
  have len: "length (split_text (replicate 1300 97)) = 3"
    by (simp add: split_text_length)
  have raised: "fst (check_text_try no_ucd demo_config
      (always (broken_logger (Response 500 (Inl OtherError)))) (py ''hello'')) = Inl OtherError"
    using hello_short by (simp add: check_text_try_def broken_logger_raises)
  note t = check_text_fail_closed [of no_ucd demo_config
      "always (broken_logger (Response 500 (Inl OtherError)))" "py ''hello''"]
  from t [THEN conjunct1, rule_format, OF raised]
  have 1: "fst (check_text no_ucd demo_config
      (always (broken_logger (Response 500 (Inl OtherError)))) (py ''hello'')) = False" .
  have "\<not> allowed (fst (check_single_text no_ucd demo_config (third_logger_fails 2)
      (split_text (replicate 1300 97) ! 2)))"
    by (simp add: third_logger_fails_def broken_logger_raises)
  moreover have "(2::nat) < length (split_text (replicate 1300 97))"
    using len by simp
  ultimately have "\<exists>i < length (split_text (replicate 1300 97)).
      \<not> allowed (fst (check_single_text no_ucd demo_config (third_logger_fails i)
        (split_text (replicate 1300 97) ! i)))"
    by blast
  with ne check_text_fail_closed [of no_ucd demo_config third_logger_fails "replicate 1300 97",
      THEN conjunct2, THEN conjunct2, THEN conjunct1]
  have 2: "fst (check_text no_ucd demo_config third_logger_fails (replicate 1300 97)) = False"
    by blast
  note s = check_text_fail_closed [of no_ucd demo_config _ _ _ "py ''hello''",
      THEN conjunct2, THEN conjunct2, THEN conjunct2, THEN conjunct1, rule_format,
      THEN conjunct2, THEN mp]
  have 3: "fst (check_single_text no_ucd demo_config (answering (Response 500 (Inl OtherError)))
         (py ''hello'')) = Inr False"
    by (rule s [of "answering (Response 500 (Inl OtherError))" req]) (simp_all add: b [simplified])
  have 4: "fst (check_single_text no_ucd demo_config
         (answering (Response 200 (Inr (JObj [(py ''foo'', JStr (py ''bar''))]))))
         (py ''hello'')) = Inr False"
    by (rule s [of "answering (Response 200 (Inr (JObj [(py ''foo'', JStr (py ''bar''))])))" req])
       (simp_all add: b [simplified] neq)
  have 5: "fst (check_single_text no_ucd demo_config (answering (Raises ClientError)) (py ''hello''))
     = Inr False"
    by (rule s [of "answering (Raises ClientError)" req]) (simp_all add: b [simplified])
  have 6: "fst (check_single_text no_ucd demo_config (answering (Response 200 (Inl OtherError)))
         (py ''hello'')) = Inr False"
    by (rule s [of "answering (Response 200 (Inl OtherError))" req]) (simp_all add: b [simplified])
  have 7: "fst (check_single_text no_ucd surrogate_config (answering (risk_answer (JStr (py ''low''))))
         (py ''hello'')) = Inr False"
    by (rule check_text_fail_closed [of no_ucd surrogate_config _ _ _ "py ''hello''",
          THEN conjunct2, THEN conjunct2, THEN conjunct2, THEN conjunct2, THEN conjunct1,
          rule_format, THEN conjunct2, THEN mp, of _ e])
       (simp_all add: u [simplified])
  have "\<exists>i < length (split_text (py ''hello'')).
      \<not> allowed (fst (check_single_text no_ucd demo_config
        (always (answering (Response 500 (Inl OtherError))) i) (split_text (py ''hello'') ! i)))"
    using 3 by (simp add: split_text_short hello_short)
  with hello_short(1) check_text_fail_closed [of no_ucd demo_config
      "always (answering (Response 500 (Inl OtherError)))" "py ''hello''",
      THEN conjunct2, THEN conjunct2, THEN conjunct1]
  have 8: "fst (check_text no_ucd demo_config (always (answering (Response 500 (Inl OtherError))))
         (py ''hello'')) = False"
    by blast
  from raised 1 2 3 4 5 6 7 8 show ?thesis by simp
qed

theorem check_text_single_segment_witness:
  "split_text (py ''hello'') = [py ''hello''] \<and>
   length (snd (check_text no_ucd demo_config (always (answering (risk_answer (JStr (py ''low'')))))
      (py ''hello''))) = 1 \<and>
   fst (check_text no_ucd demo_config (always (answering (risk_answer (JStr (py ''low'')))))
      (py ''hello'')) = True \<and>
   check_text no_ucd surrogate_config (always (answering (risk_answer (JStr (py ''low'')))))
      (py ''hello'') = (False, [])"
proof -
  from check_text_single_segment [OF hello_short, of no_ucd demo_config
      "always (answering (risk_answer (JStr (py ''low''))))"]
    check_text_single_segment [OF hello_short, of no_ucd surrogate_config
      "always (answering (risk_answer (JStr (py ''low''))))"]
  show ?thesis
    using demo_config_encodable surrogate_config_not_encodable
    by (auto simp: demo_low_allowed)
qed

theorem single_request_counterexample:
  "py ''hello'' \<noteq> [] \<and> length (py ''hello'') \<le> 600 \<and>
   length (snd (check_text no_ucd surrogate_config
      (always (answering (risk_answer (JStr (py ''low''))))) (py ''hello''))) \<noteq> 1"
proof -
  obtain e where
    "build_request surrogate_config (now (always (answering (risk_answer (JStr (py ''low'')))) 0))
       (uuid4 (always (answering (risk_answer (JStr (py ''low'')))) 0)) (py ''hello'') = Inl e"
    using build_request_fails surrogate_config_not_encodable by blast
  then have "snd (check_text no_ucd surrogate_config
      (always (answering (risk_answer (JStr (py ''low''))))) (py ''hello'')) = []"
    by (simp only: check_text_short [OF hello_short] check_single_text_unbuilt snd_conv)
  with hello_short show ?thesis by simp
qed

end
